(* ===== verification/Prelude.thy ===== *)
theory Prelude
  imports Main "HOL-Library.Word"
begin

text \<open>
  Shared vocabulary of the development: the machine integers and byte strings of the Go
  code, big-endian encoding as \<open>encoding/binary\<close> does it, the result type of fallible
  stateful calls with its sequencing, and the generic lemmas the component theories use.

  Go's \<open>uint8\<close>, \<open>uint16\<close>, \<open>uint32\<close> and \<open>uint64\<close> are words of that
  width; a Go \<open>string\<close> or \<open>[]byte\<close> is a list of bytes.
\<close>

unbundle bit_operations_syntax

type_synonym byte = "8 word"
type_synonym u8 = "8 word"
type_synonym u16 = "16 word"
type_synonym u32 = "32 word"
type_synonym u64 = "64 word"
type_synonym gostring = "byte list"

named_theorems codec_simps "evaluation of encoders and decoders on known input"
named_theorems res_simps "evaluation of the result sequencing on known outcomes"

section \<open>Go string literals\<close>

text \<open>The bytes of a string literal, for the ASCII literals of the source.\<close>

definition bytes_of :: "string \<Rightarrow> gostring" where
  "bytes_of s = map (\<lambda>c. word_of_nat (of_char c)) s"

section \<open>Big-endian integers\<close>

text \<open>
  \<open>binary.Write(w, binary.BigEndian, v)\<close> emits the bytes of \<open>v\<close>, the most
  significant first; \<open>binary.Read\<close> puts them together again with shifts and ors.
\<close>

definition be8 :: "u8 \<Rightarrow> byte list" where
  "be8 v = [v]"

definition be16 :: "u16 \<Rightarrow> byte list" where
  "be16 v = [ucast (drop_bit 8 v), ucast v]"

definition be32 :: "u32 \<Rightarrow> byte list" where
  "be32 v = [ucast (drop_bit 24 v), ucast (drop_bit 16 v), ucast (drop_bit 8 v), ucast v]"

fun un_be8 :: "byte list \<Rightarrow> u8" where
  "un_be8 (a # _) = a"
| "un_be8 [] = 0"

fun un_be32 :: "byte list \<Rightarrow> u32" where
  "un_be32 (a # b # c # d # _) =
     ucast d OR push_bit 8 (ucast c) OR push_bit 16 (ucast b) OR push_bit 24 (ucast a)"
| "un_be32 _ = 0"

lemma length_be [simp]:
  "length (be8 x) = 1" "length (be16 y) = 2" "length (be32 z) = 4"
  by (simp_all add: be8_def be16_def be32_def)

lemma un_be8_be8 [simp, codec_simps]: "un_be8 (be8 v @ bs) = v"
  by (simp add: be8_def)

lemma un_be32_be32 [simp, codec_simps]: "un_be32 (be32 v @ bs) = v"
proof (rule bit_word_eqI)
  fix n :: nat
  assume "n < LENGTH(32)"
  then consider "n < 8" | "8 \<le> n" "n < 16" | "16 \<le> n" "n < 24" | "24 \<le> n" "n < 32"
    by fastforce
  then show "bit (un_be32 (be32 v @ bs)) n = bit v n"
    by cases (auto simp: be32_def bit_simps)
qed

lemma un_be32_be32' [simp, codec_simps]: "un_be32 (be32 v) = v"
  using un_be32_be32 [of v "[]"] by simp

lemma bit_word_beyond: "LENGTH('a) \<le> n \<Longrightarrow> bit (w :: 'a::len word) n = False"
  by (auto dest: bit_imp_le_length)

lemma be32_un_be32: "length bs = 4 \<Longrightarrow> be32 (un_be32 bs) = bs"
proof -
  assume "length bs = 4"
  then obtain a b c d where "bs = [a, b, c, d]"
    by (auto simp: eval_nat_numeral length_Suc_conv)
  then show ?thesis
    by (simp add: be32_def, intro conjI bit_word_eqI)
      (auto simp: bit_simps bit_word_beyond)
qed

section \<open>Masks and packed words\<close>

lemma and_low24: "(w :: u32) AND 0xffffff = take_bit 24 w"
  by (simp add: take_bit_eq_mask mask_eq_exp_minus_1)

lemma and_low31: "(w :: u32) AND 0x7fffffff = take_bit 31 w"
  by (simp add: take_bit_eq_mask mask_eq_exp_minus_1)

lemma drop24_and_ff: "drop_bit 24 (w :: u32) AND 255 = drop_bit 24 w"
proof -
  have "drop_bit 24 w AND 255 = take_bit 8 (drop_bit 24 w)"
    by (simp add: take_bit_eq_mask mask_eq_exp_minus_1)
  also have "\<dots> = drop_bit 24 w"
  proof (rule bit_word_eqI)
    fix n :: nat
    show "bit (take_bit 8 (drop_bit 24 w)) n = bit (drop_bit 24 w) n"
      by (cases "n < 8") (auto simp: bit_simps bit_word_beyond)
  qed
  finally show ?thesis .
qed

lemma and_high8: "drop_bit 24 ((w :: u32) AND 0xff000000) = drop_bit 24 w"
  by (simp add: drop_bit_and drop24_and_ff)

lemma and_bit31: "(w :: u32) AND 0x80000000 = 0 \<longleftrightarrow> \<not> bit w 31"
  using and_exp_eq_0_iff_not_bit [of w 31] by simp

lemma and_low31_id: "(w :: u32) AND 0x80000000 = 0 \<Longrightarrow> w AND 0x7fffffff = w"
proof -
  assume "w AND 0x80000000 = 0"
  then have "\<not> bit w 31" by (simp add: and_bit31)
  have "bit (take_bit 31 w) n = bit w n" for n
  proof (cases "n < 31")
    case False
    then have "n = 31 \<or> 32 \<le> n" by arith
    with \<open>\<not> bit w 31\<close> show ?thesis by (auto simp: bit_simps bit_word_beyond)
  qed (simp add: bit_simps)
  then show ?thesis unfolding and_low31 by (intro bit_word_eqI)
qed

text \<open>\<^verbatim>\<open>uint32(hi)<<24 | lo\<close>: a word that packs a byte above a 24-bit value.\<close>

definition pack24 :: "u8 \<Rightarrow> u32 \<Rightarrow> u32" where
  "pack24 hi lo = push_bit 24 (ucast hi) OR lo"

lemma pack24_high: "take_bit 24 lo = lo \<Longrightarrow> ucast (drop_bit 24 (pack24 hi lo)) = hi"
proof -
  assume lo: "take_bit 24 lo = lo"
  have "\<not> bit lo n" if "24 \<le> n" for n
    using that lo by (metis bit_take_bit_iff not_le)
  then show ?thesis
    by (auto intro!: bit_word_eqI simp: pack24_def bit_simps)
qed

lemma pack24_low: "take_bit 24 lo = lo \<Longrightarrow> take_bit 24 (pack24 hi lo) = lo"
  by (simp add: pack24_def bit_eq_iff bit_simps) auto

lemma take_bit24_small: "n < 2 ^ 24 \<Longrightarrow> take_bit 24 (word_of_nat n :: u32) = word_of_nat n"
proof (rule word_unat_eq_iff [THEN iffD2])
  assume "n < 2 ^ 24"
  then show "unat (take_bit 24 (word_of_nat n :: u32)) = unat (word_of_nat n :: u32)"
    by (simp add: unsigned_take_bit_eq unat_of_nat take_bit_nat_eq_self)
qed

lemma be16_be16: "be16 a @ be16 b = be32 (push_bit 16 (ucast a) OR ucast b)"
  by (auto simp: be16_def be32_def bit_simps bit_word_beyond intro!: bit_word_eqI)

section \<open>Results of fallible stateful calls\<close>

text \<open>
  A Go function \<open>(T, error)\<close> that changes a state is a function to
  \<open>(error + T) \<times> state\<close>: \<open>Inl\<close> is the non-nil error. \<open>rbind\<close> is the idiom
  \<^verbatim>\<open>x, err := f(); if err != nil { return err }; rest\<close>.
\<close>

type_synonym ('e, 'a, 's) result = "('e + 'a) \<times> 's"

definition rbind :: "('e, 'a, 's) result \<Rightarrow> ('a \<Rightarrow> 's \<Rightarrow> ('e, 'b, 's) result) \<Rightarrow> ('e, 'b, 's) result" where
  "rbind r k = (case r of (Inl e, s) \<Rightarrow> (Inl e, s) | (Inr a, s) \<Rightarrow> k a s)"

lemma rbind_simps [simp, res_simps]:
  "rbind (Inl e, s) k = (Inl e, s)"
  "rbind (Inr a, s) k = k a s"
  by (simp_all add: rbind_def)

lemma rbind_Inr_iff:
  "rbind r k = (Inr b, t) \<longleftrightarrow> (\<exists>a s. r = (Inr a, s) \<and> k a s = (Inr b, t))"
  by (auto simp: rbind_def split: prod.splits sum.splits)

lemma rbind_InrE:
  assumes "rbind r k = (Inr b, t)"
  obtains a s where "r = (Inr a, s)" "k a s = (Inr b, t)"
  using assms by (auto simp: rbind_Inr_iff)

section \<open>Generic lemmas\<close>

lemma take_length_append [simp]: "length xs = n \<Longrightarrow> take n (xs @ ys) = xs"
  by simp

lemma drop_length_append [simp]: "length xs = n \<Longrightarrow> drop n (xs @ ys) = ys"
  by simp

lemma map_of_snoc: "map_of (xs @ [(k, v)]) = (map_of [(k, v)] ++ map_of xs)"
  by simp

lemma unat_word_of_nat_small:
  "n < 2 ^ LENGTH('a) \<Longrightarrow> unat (word_of_nat n :: 'a::len word) = n"
  by (simp add: unat_of_nat take_bit_nat_eq_self)

lemma word_of_nat_le_unat:
  fixes m :: "'a::len word"
  assumes "k \<le> unat m"
  shows "unat (word_of_nat k :: 'a word) = k" and "\<not> m < word_of_nat k"
proof -
  have "unat m < 2 ^ LENGTH('a)" by (rule unsigned_less)
  with assms have "k < 2 ^ LENGTH('a)" by (rule le_less_trans)
  then show k: "unat (word_of_nat k :: 'a word) = k" by (rule unat_word_of_nat_small)
  from k assms show "\<not> m < word_of_nat k" by (simp add: word_less_nat_alt)
qed

lemma word_less_succ:
  fixes v :: "'w::len word"
  assumes "v \<noteq> - 1"
  shows "v < v + 1"
proof -
  from assms have "1 + v \<noteq> 0" by (metis add.commute add.right_inverse add_left_cancel)
  from unatSuc [OF this] show ?thesis by (simp add: word_less_nat_alt add.commute)
qed

end
