(* ===== verification/Spdy_Types.thy ===== *)
theory Spdy_Types
  imports Prelude Dictionary
begin

text \<open>
  The data of \<^verbatim>\<open>spdy/types.go\<close> and \<^verbatim>\<open>spdy/options.go\<close>: the constants, the
  error values, one record per frame type, and the \<open>Framer\<close> with its constructor and
  options.  The constants keep the names of the source.
\<close>

section \<open>Constants\<close>

definition Version :: u16 where "Version = 3"

definition TypeSynStream :: u16 where "TypeSynStream = 0x0001"
definition TypeSynReply :: u16 where "TypeSynReply = 0x0002"
definition TypeRstStream :: u16 where "TypeRstStream = 0x0003"
definition TypeSettings :: u16 where "TypeSettings = 0x0004"
definition TypePing :: u16 where "TypePing = 0x0006"
definition TypeGoAway :: u16 where "TypeGoAway = 0x0007"
definition TypeHeaders :: u16 where "TypeHeaders = 0x0008"
definition TypeWindowUpdate :: u16 where "TypeWindowUpdate = 0x0009"

lemmas frame_type_defs = TypeSynStream_def TypeSynReply_def TypeRstStream_def TypeSettings_def
  TypePing_def TypeGoAway_def TypeHeaders_def TypeWindowUpdate_def

definition ControlFlagFin :: u8 where "ControlFlagFin = 0x01"
definition ControlFlagUnidirectional :: u8 where "ControlFlagUnidirectional = 0x02"
definition DataFlagFin :: u8 where "DataFlagFin = 0x01"

text \<open>\<open>MaxDataLength = 1<<24 - 1\<close>: the largest payload a 24-bit length can name.\<close>

definition MaxDataLength :: nat where "MaxDataLength = 2 ^ 24 - 1"

definition defaultMaxHeaderFieldSize :: u32 where "defaultMaxHeaderFieldSize = 2 ^ 20"
definition defaultMaxHeaderCount :: u32 where "defaultMaxHeaderCount = 1000"

text \<open>\<open>headerValueSeparator\<close>, the one-byte string \<^verbatim>\<open>"\x00"\<close>.\<close>

definition headerValueSeparator :: byte where "headerValueSeparator = 0"

section \<open>Identifiers, errors\<close>

type_synonym stream_id = u32

datatype error_code =
    UnlowercasedHeaderName
  | DuplicateHeaders
  | WrongCompressedPayloadSize
  | UnknownFrameType
  | InvalidControlFrame
  | InvalidDataFrame
  | InvalidHeaderPresent
  | ZeroStreamId

text \<open>
  The values of Go's \<open>error\<close> interface that occur here: \<open>io.EOF\<close> and
  \<open>io.ErrUnexpectedEOF\<close>, an error of the network connection (\<open>NetError\<close>, with a
  number that tells different ones apart), an error of the zlib package, and
  \<open>&spdy.Error{code, streamId}\<close>; the error variables of \<^verbatim>\<open>connection.go\<close> and
  \<^verbatim>\<open>stream.go\<close>, and \<open>ErrMsg\<close>, an error those make on the spot with the given text.
\<close>

datatype go_error =
    EOF
  | ErrUnexpectedEOF
  | NetError nat
  | ZlibError nat
  | SpdyError error_code stream_id
  | ErrInvalidStreamId
  | ErrTimeout
  | ErrReset
  | ErrWriteClosedStream
  | ErrUnreadPartialData
  | ErrMsg string

definition ProtocolError :: u32 where "ProtocolError = 1"
definition InvalidStream :: u32 where "InvalidStream = 2"
definition RefusedStream :: u32 where "RefusedStream = 3"
definition Cancel :: u32 where "Cancel = 5"

definition GoAwayOK :: u32 where "GoAwayOK = 0"

section \<open>Frames\<close>

text \<open>
  \<open>http.Header\<close> is a Go map from names to value lists.  It is an association list with
  distinct keys; \<open>map_of\<close> is the map.  The order of the list is the order in which a
  \<open>range\<close> loop visits the keys: Go leaves it open, so theorems that hold for every such
  list hold for every iteration order.
\<close>

type_synonym http_header = "(gostring \<times> gostring list) list"

record control_frame_header =
  cf_version :: u16
  cf_frameType :: u16
  cf_Flags :: u8
  cf_length :: u32

record syn_stream_frame =
  ss_CFHeader :: control_frame_header
  ss_StreamId :: stream_id
  ss_AssociatedToStreamId :: stream_id
  ss_Priority :: u8
  ss_Slot :: u8
  ss_Headers :: http_header

record syn_reply_frame =
  sr_CFHeader :: control_frame_header
  sr_StreamId :: stream_id
  sr_Headers :: http_header

record rst_stream_frame =
  rs_CFHeader :: control_frame_header
  rs_StreamId :: stream_id
  rs_Status :: u32

record settings_flag_id_value =
  sv_Flag :: u8
  sv_Id :: u32
  sv_Value :: u32

record settings_frame =
  st_CFHeader :: control_frame_header
  st_FlagIdValues :: "settings_flag_id_value list"

record ping_frame =
  pg_CFHeader :: control_frame_header
  pg_Id :: u32

record go_away_frame =
  ga_CFHeader :: control_frame_header
  ga_LastGoodStreamId :: stream_id
  ga_Status :: u32

record headers_frame =
  hd_CFHeader :: control_frame_header
  hd_StreamId :: stream_id
  hd_Headers :: http_header

record window_update_frame =
  wu_CFHeader :: control_frame_header
  wu_StreamId :: stream_id
  wu_DeltaWindowSize :: u32

record data_frame =
  df_StreamId :: stream_id
  df_Flags :: u8
  df_Data :: "byte list"

text \<open>The interface \<open>Frame\<close>: a value of one of the nine frame types.\<close>

datatype frame =
    SynStream syn_stream_frame
  | SynReply syn_reply_frame
  | RstStream rst_stream_frame
  | Settings settings_frame
  | Ping ping_frame
  | GoAway go_away_frame
  | Headers headers_frame
  | WindowUpdate window_update_frame
  | Data data_frame

section \<open>Header names a frame may not carry\<close>

definition invalidReqHeaders :: "gostring list" where
  "invalidReqHeaders = map bytes_of
     [''Connection'', ''Host'', ''Keep-Alive'', ''Proxy-Connection'', ''Transfer-Encoding'']"

definition invalidRespHeaders :: "gostring list" where
  "invalidRespHeaders = map bytes_of
     [''Connection'', ''Keep-Alive'', ''Proxy-Connection'', ''Transfer-Encoding'']"

section \<open>Network ends\<close>

text \<open>
  The reading end of a connection: the bytes that are still to come, and the error the
  connection reports once they are used up (\<open>EOF\<close> for an orderly end).

  The writing end: the bytes that went out so far and, if the connection is going to fail,
  after how many more bytes and with which error.  A failing write puts out the bytes that
  still fit, as \<open>io.Writer\<close> documents.
\<close>

record reader =
  rd_bytes :: "byte list"
  rd_end :: go_error

record writer =
  wr_out :: "byte list"
  wr_fault :: "(nat \<times> go_error) option"

section \<open>The zlib package\<close>

text \<open>
  The streams of \<^verbatim>\<open>compress/zlib\<close> are a parameter: the DEFLATE algorithm is not part of
  the repository.  \<open>'c\<close> is the state of a \<open>zlib.Writer\<close> and \<open>'d\<close> that of the
  reader \<open>zlib.NewReaderDict\<close> returns.  The compressor is a \<open>Write\<close> and a
  \<open>Flush\<close> that append to the header buffer; the decompressor takes what it needs from an
  \<open>io.LimitedReader\<close>, a reader with the number of bytes it may still hand out.
  \<open>unicode_lower\<close> is what \<open>strings.ToLower\<close> does to a string that is not ASCII,
  which rests on the Unicode tables.
\<close>

type_synonym limited_reader = "reader \<times> nat"

record ('c, 'd) golib =
  zw_new :: "byte list \<Rightarrow> go_error + 'c"
  zw_write :: "byte list \<Rightarrow> 'c \<Rightarrow> go_error option \<times> 'c \<times> byte list"
  zw_flush :: "'c \<Rightarrow> 'c \<times> byte list"
  zr_new :: "byte list \<Rightarrow> limited_reader \<Rightarrow> (go_error + 'd) \<times> limited_reader"
  zr_readFull :: "nat \<Rightarrow> 'd \<times> limited_reader \<Rightarrow> (go_error + byte list) \<times> 'd \<times> limited_reader"
  unicode_lower :: "gostring \<Rightarrow> gostring"

section \<open>The framer\<close>

text \<open>
  \<open>headerReader\<close> is a limited reader over the connection: its \<open>R\<close> is \<open>f_r\<close>,
  its \<open>N\<close> is \<open>headerReader_N\<close>.
\<close>

record ('c, 'd) framer =
  headerCompressionDisabled :: bool
  f_w :: writer
  headerBuf :: "byte list"
  headerCompressor :: 'c
  f_r :: reader
  headerReader_N :: nat
  headerDecompressor :: "'d option"
  maxFrameLength :: u32
  maxHeaderFieldSize :: u32
  maxHeaderCount :: u32

type_synonym ('c, 'd) framer_option = "('c, 'd) framer \<Rightarrow> ('c, 'd) framer"

definition WithMaxControlFramePayloadSize :: "u32 \<Rightarrow> ('c, 'd) framer_option" where
  "WithMaxControlFramePayloadSize sz = (\<lambda>f. f\<lparr>maxFrameLength := sz\<rparr>)"

definition WithMaxHeaderFieldSize :: "u32 \<Rightarrow> ('c, 'd) framer_option" where
  "WithMaxHeaderFieldSize sz = (\<lambda>f. f\<lparr>maxHeaderFieldSize := sz\<rparr>)"

definition WithMaxHeaderCount :: "u32 \<Rightarrow> ('c, 'd) framer_option" where
  "WithMaxHeaderCount count = (\<lambda>f. f\<lparr>maxHeaderCount := count\<rparr>)"

text \<open>The loop over the options skips a nil option.\<close>

fun apply_options :: "('c, 'd) framer_option option list \<Rightarrow> ('c, 'd) framer \<Rightarrow> ('c, 'd) framer" where
  "apply_options [] f = f"
| "apply_options (None # opts) f = apply_options opts f"
| "apply_options (Some opt # opts) f = apply_options opts (opt f)"

definition newFramer ::
  "('c, 'd) golib \<Rightarrow> writer \<Rightarrow> reader \<Rightarrow> ('c, 'd) framer_option option list \<Rightarrow> go_error + ('c, 'd) framer" where
  "newFramer lib w r opts =
     (case zw_new lib headerDictionary of
        Inl err \<Rightarrow> Inl err
      | Inr compressor \<Rightarrow> Inr (apply_options opts
          \<lparr>headerCompressionDisabled = False, f_w = w, headerBuf = [],
           headerCompressor = compressor, f_r = r, headerReader_N = 0,
           headerDecompressor = None, maxFrameLength = 0, maxHeaderFieldSize = 0,
           maxHeaderCount = 0\<rparr>))"

definition NewFramer :: "('c, 'd) golib \<Rightarrow> writer \<Rightarrow> reader \<Rightarrow> go_error + ('c, 'd) framer" where
  "NewFramer lib w r = newFramer lib w r []"

definition NewFramerWithOptions ::
  "('c, 'd) golib \<Rightarrow> writer \<Rightarrow> reader \<Rightarrow> ('c, 'd) framer_option option list \<Rightarrow> go_error + ('c, 'd) framer" where
  "NewFramerWithOptions lib w r opts = newFramer lib w r opts"

end
