(* ===== verification/Go_Lib.thy ===== *)
theory Go_Lib
  imports Spdy_Types
begin

text \<open>
  What the codec uses of Go's standard library: \<open>io\<close> and \<open>encoding/binary\<close> over the
  two ends of a connection, \<open>strings\<close> on byte strings, and \<open>http.Header\<close>.
  The interface of a byte source (\<open>io.Reader\<close> as \<open>io.ReadFull\<close> uses it) is the
  locale \<open>byte_source\<close>; the connection provides it.
\<close>

section \<open>Writing\<close>

definition write_bytes :: "byte list \<Rightarrow> writer \<Rightarrow> go_error option \<times> writer" where
  "write_bytes bs w =
     (case wr_fault w of
        None \<Rightarrow> (None, w\<lparr>wr_out := wr_out w @ bs\<rparr>)
      | Some (n, err) \<Rightarrow>
          if length bs \<le> n
          then (None, w\<lparr>wr_out := wr_out w @ bs, wr_fault := Some (n - length bs, err)\<rparr>)
          else (Some err, w\<lparr>wr_out := wr_out w @ take n bs, wr_fault := Some (0, err)\<rparr>))"

text \<open>
  A run of calls \<^verbatim>\<open>if err = w.Write(b); err != nil { return err }\<close>, one per chunk.
\<close>

fun write_all :: "byte list list \<Rightarrow> writer \<Rightarrow> go_error option \<times> writer" where
  "write_all [] w = (None, w)"
| "write_all (b # bs) w =
     (case write_bytes b w of
        (Some err, w') \<Rightarrow> (Some err, w')
      | (None, w') \<Rightarrow> write_all bs w')"

definition wthen :: "go_error option \<times> 'w \<Rightarrow> ('w \<Rightarrow> go_error option \<times> 'w) \<Rightarrow> go_error option \<times> 'w" where
  "wthen r k = (case r of (Some err, w) \<Rightarrow> (Some err, w) | (None, w) \<Rightarrow> k w)"

lemma wthen_simps [simp, res_simps]:
  "wthen (Some err, w) k = (Some err, w)"
  "wthen (None, w) k = k w"
  by (simp_all add: wthen_def)

lemma write_all_append: "write_all (xs @ ys) w = wthen (write_all xs w) (write_all ys)"
  by (induction xs arbitrary: w) (auto split: prod.split option.split)

lemma write_all_ok:
  "wr_fault w = None \<Longrightarrow> write_all bs w = (None, w\<lparr>wr_out := wr_out w @ concat bs\<rparr>)"
  by (induction bs arbitrary: w) (auto simp: write_bytes_def)

text \<open>
  Whatever happens, the bytes put out are a prefix of the chunks, and all of them exactly if
  no error is returned.
\<close>

lemma write_bytes_out:
  assumes "write_bytes b w = (err, w')"
  shows "\<exists>p q. wr_out w' = wr_out w @ p \<and> b = p @ q \<and> (err = None \<longrightarrow> q = [])"
proof (cases "wr_fault w")
  case None
  with assms show ?thesis by (auto simp: write_bytes_def)
next
  case (Some f)
  obtain n e where f: "f = (n, e)" by fastforce
  have "b = take n b @ drop n b" by simp
  with assms Some f show ?thesis by (auto simp: write_bytes_def split: if_splits simp del: append_take_drop_id)
qed

lemma write_all_out:
  "write_all bs w = (err, w') \<Longrightarrow>
     \<exists>p q. wr_out w' = wr_out w @ p \<and> concat bs = p @ q \<and> (err = None \<longrightarrow> q = [])"
proof (induction bs arbitrary: w)
  case Nil
  then show ?case by auto
next
  case (Cons b bs)
  obtain e1 w1 where w1: "write_bytes b w = (e1, w1)" by fastforce
  from write_bytes_out [OF this] obtain p1 q1 where
    p1: "wr_out w1 = wr_out w @ p1" "b = p1 @ q1" "e1 = None \<longrightarrow> q1 = []" by blast
  show ?case
  proof (cases e1)
    case (Some x)
    with Cons.prems w1 p1 show ?thesis by auto
  next
    case None
    with Cons.prems w1 have "write_all bs w1 = (err, w')" by simp
    from Cons.IH [OF this] p1 None show ?thesis by auto
  qed
qed

section \<open>Reading\<close>

text \<open>
  \<open>io.ReadFull\<close>: all the bytes asked for, or the connection's error; an orderly end in
  the middle is \<open>ErrUnexpectedEOF\<close>.  What was there is gone in any case.
\<close>

definition readFull :: "nat \<Rightarrow> reader \<Rightarrow> (go_error, byte list, reader) result" where
  "readFull n r =
     (if n \<le> length (rd_bytes r)
      then (Inr (take n (rd_bytes r)), r\<lparr>rd_bytes := drop n (rd_bytes r)\<rparr>)
      else (Inl (if rd_end r = EOF \<and> rd_bytes r \<noteq> [] then ErrUnexpectedEOF else rd_end r),
            r\<lparr>rd_bytes := []\<rparr>))"

text \<open>\<open>io.CopyN(ioutil.Discard, r, n)\<close>: fewer bytes than asked for is an error.\<close>

definition discardN :: "nat \<Rightarrow> reader \<Rightarrow> (go_error, unit, reader) result" where
  "discardN n r =
     (if n \<le> length (rd_bytes r) then (Inr (), r\<lparr>rd_bytes := drop n (rd_bytes r)\<rparr>)
      else (Inl (rd_end r), r\<lparr>rd_bytes := []\<rparr>))"

text \<open>
  \<open>binary.Read(r, binary.BigEndian, &v)\<close> for a \<open>uint32\<close> and a \<open>uint8\<close>, from
  any reader: \<open>rf\<close> is that reader's \<open>io.ReadFull\<close>.
\<close>

type_synonym 's read_full = "nat \<Rightarrow> 's \<Rightarrow> (go_error, byte list, 's) result"

definition readU32 :: "'s read_full \<Rightarrow> 's \<Rightarrow> (go_error, u32, 's) result" where
  "readU32 rf s = rbind (rf 4 s) (\<lambda>bs s'. (Inr (un_be32 bs), s'))"

definition readU8 :: "'s read_full \<Rightarrow> 's \<Rightarrow> (go_error, u8, 's) result" where
  "readU8 rf s = rbind (rf 1 s) (\<lambda>bs s'. (Inr (un_be8 bs), s'))"

text \<open>
  The interface of a byte source: \<open>ready bs s\<close> says that the source \<open>s\<close> is about to
  deliver \<open>bs\<close>; the one law is that it does, in portions of any size.
\<close>

locale byte_source =
  fixes rf :: "'s read_full"
    and ready :: "byte list \<Rightarrow> 's \<Rightarrow> bool"
  assumes rf_ready: "ready (a @ b) s \<Longrightarrow> \<exists>s'. rf (length a) s = (Inr a, s') \<and> ready b s'"
begin

lemma rf_readyE:
  assumes "ready (a @ b) s" and "n = length a"
  obtains s' where "rf n s = (Inr a, s')" "ready b s'"
  using rf_ready [OF assms(1)] assms(2) by blast

lemma readU32_ready:
  assumes "ready (be32 v @ b) s"
  obtains s' where "readU32 rf s = (Inr v, s')" "ready b s'"
proof -
  from assms obtain s' where "rf 4 s = (Inr (be32 v), s')" "ready b s'"
    by (rule rf_readyE) simp
  then show thesis by (intro that [of s']) (simp_all add: readU32_def)
qed

end

interpretation conn: byte_source readFull "\<lambda>bs r. r = \<lparr>rd_bytes = bs @ rest, rd_end = err\<rparr>"
  for rest err
  by unfold_locales (simp add: readFull_def)

lemma readFull_append [codec_simps]:
  "length a = n \<Longrightarrow>
   readFull n \<lparr>rd_bytes = a @ b, rd_end = e\<rparr> = (Inr a, \<lparr>rd_bytes = b, rd_end = e\<rparr>)"
  by (simp add: readFull_def)

lemma readU32_be32 [codec_simps]:
  "readU32 readFull \<lparr>rd_bytes = be32 v @ b, rd_end = e\<rparr> = (Inr v, \<lparr>rd_bytes = b, rd_end = e\<rparr>)"
  by (simp add: readU32_def readFull_def)

lemma readU8_be8 [codec_simps]:
  "readU8 readFull \<lparr>rd_bytes = be8 v @ b, rd_end = e\<rparr> = (Inr v, \<lparr>rd_bytes = b, rd_end = e\<rparr>)"
  using un_be8_be8 [of v "[]"] by (simp add: readU8_def readFull_def)

section \<open>Strings\<close>

text \<open>
  \<open>strings.ToLower\<close>: byte by byte if the string is ASCII, through the Unicode tables
  otherwise.
\<close>

definition ascii_lower :: "byte \<Rightarrow> byte" where
  "ascii_lower c = (if 0x41 \<le> c \<and> c \<le> 0x5A then c + 0x20 else c)"

definition is_ascii :: "gostring \<Rightarrow> bool" where
  "is_ascii s = list_all (\<lambda>c. c < 0x80) s"

definition toLower :: "('c, 'd) golib \<Rightarrow> gostring \<Rightarrow> gostring" where
  "toLower lib s = (if is_ascii s then map ascii_lower s else unicode_lower lib s)"

text \<open>\<open>strings.Join(vs, "\x00")\<close> and \<open>strings.Split(s, "\x00")\<close>.\<close>

fun joinSep :: "gostring list \<Rightarrow> gostring" where
  "joinSep [] = []"
| "joinSep [v] = v"
| "joinSep (v # vs) = v @ headerValueSeparator # joinSep vs"

fun splitSep :: "gostring \<Rightarrow> gostring list" where
  "splitSep [] = [[]]"
| "splitSep (c # s) =
     (if c = headerValueSeparator then [] # splitSep s
      else (case splitSep s of [] \<Rightarrow> [[c]] | v # vs \<Rightarrow> (c # v) # vs))"

lemma splitSep_nonempty [simp]: "splitSep s \<noteq> []"
  by (induction s) (auto split: list.splits)

lemma splitSep_single: "headerValueSeparator \<notin> set v \<Longrightarrow> splitSep v = [v]"
  by (induction v) auto

lemma splitSep_cons:
  "headerValueSeparator \<notin> set v \<Longrightarrow> splitSep (v @ headerValueSeparator # s) = v # splitSep s"
  by (induction v) auto

lemma splitSep_joinSep:
  "vs \<noteq> [] \<Longrightarrow> \<forall>v\<in>set vs. headerValueSeparator \<notin> set v \<Longrightarrow> splitSep (joinSep vs) = vs"
  by (induction vs rule: joinSep.induct) (simp_all add: splitSep_single splitSep_cons)

lemma joinSep_splitSep: "joinSep (splitSep s) = s"
proof (induction s)
  case (Cons c s)
  obtain v vs where v: "splitSep s = v # vs" by (cases "splitSep s") auto
  then show ?case using Cons by (cases vs) auto
qed simp

section \<open>\<open>http.Header\<close>\<close>

text \<open>
  \<open>textproto.CanonicalMIMEHeaderKey\<close>: the first letter and every letter after a hyphen
  upper case, the rest lower case; a name with a byte that is no token character stays as it
  is.
\<close>

definition isTokenByte :: "byte \<Rightarrow> bool" where
  "isTokenByte c = (c = 33 \<or> (35 \<le> c \<and> c \<le> 39) \<or> c = 42 \<or> c = 43 \<or> c = 45 \<or> c = 46 \<or>
     (48 \<le> c \<and> c \<le> 57) \<or> (65 \<le> c \<and> c \<le> 90) \<or> (94 \<le> c \<and> c \<le> 122) \<or> c = 124 \<or> c = 126)"

fun canonBytes :: "bool \<Rightarrow> gostring \<Rightarrow> gostring" where
  "canonBytes upper [] = []"
| "canonBytes upper (c # s) =
     (let c' = (if upper \<and> 97 \<le> c \<and> c \<le> 122 then c - 32
                else if \<not> upper \<and> 65 \<le> c \<and> c \<le> 90 then c + 32 else c)
      in c' # canonBytes (c' = 45) s)"

definition canonicalKey :: "gostring \<Rightarrow> gostring" where
  "canonicalKey s = (if list_all isTokenByte s then canonBytes True s else s)"

text \<open>\<open>h[key] = append(h[key], value)\<close>; a new key may end up anywhere in the order.\<close>

fun map_append :: "http_header \<Rightarrow> gostring \<Rightarrow> gostring \<Rightarrow> http_header" where
  "map_append [] k v = [(k, [v])]"
| "map_append ((k', vs) # h) k v =
     (if k' = k then (k', vs @ [v]) # h else (k', vs) # map_append h k v)"

definition header_Add :: "http_header \<Rightarrow> gostring \<Rightarrow> gostring \<Rightarrow> http_header" where
  "header_Add h name v = map_append h (canonicalKey name) v"

text \<open>\<open>for _, v := range valueList { h.Add(name, v) }\<close>\<close>

definition header_AddAll :: "http_header \<Rightarrow> gostring \<Rightarrow> gostring list \<Rightarrow> http_header" where
  "header_AddAll h name vs = fold (\<lambda>v h. header_Add h name v) vs h"

lemma map_append_keys: "set (map fst (map_append h k v)) = insert k (set (map fst h))"
proof (induction h)
  case (Cons kv h)
  then show ?case by (cases kv) (auto simp: insert_commute simp del: set_map)
qed simp

lemma map_append_new: "k \<notin> fst ` set h \<Longrightarrow> map_append h k v = h @ [(k, [v])]"
  by (induction h) auto

lemma map_append_last: "k \<notin> fst ` set h \<Longrightarrow> map_append (h @ [(k, vs)]) k v = h @ [(k, vs @ [v])]"
  by (induction h) auto

lemma distinct_map_append: "distinct (map fst h) \<Longrightarrow> distinct (map fst (map_append h k v))"
proof (induction h)
  case (Cons kv h)
  then show ?case using map_append_keys [of h k v] by (cases kv) (auto simp: image_iff)
qed simp

lemma header_Add_last_many:
  "canonicalKey n \<notin> fst ` set h \<Longrightarrow>
   fold (\<lambda>v h. header_Add h n v) ws (h @ [(canonicalKey n, vs)]) = h @ [(canonicalKey n, vs @ ws)]"
  by (induction ws arbitrary: vs) (auto simp: header_Add_def map_append_last)

lemma header_AddAll_new:
  assumes "canonicalKey n \<notin> fst ` set h" "vs \<noteq> []"
  shows "header_AddAll h n vs = h @ [(canonicalKey n, vs)]"
proof -
  obtain v ws where vs: "vs = v # ws" using assms(2) by (cases vs) auto
  have "header_Add h n v = h @ [(canonicalKey n, [v])]"
    using assms(1) by (simp add: header_Add_def map_append_new)
  then show ?thesis
    using header_Add_last_many [OF assms(1), of ws "[v]"] by (simp add: header_AddAll_def vs)
qed

end
