(* ===== verification/Spdy_Write.thy ===== *)
theory Spdy_Write
  imports Go_Lib
begin

text \<open>
  The encoder, \<^verbatim>\<open>spdy/write.go\<close>.  Each \<open>write\<close> method returns the error (if any),
  the framer, and the frame, whose control header the method fills in.
\<close>

section \<open>Control frame header\<close>

definition header_chunks :: "control_frame_header \<Rightarrow> byte list list" where
  "header_chunks h =
     [be16 (0x8000 OR cf_version h),
      be16 (cf_frameType h),
      be32 (pack24 (cf_Flags h) (cf_length h))]"

definition writeControlFrameHeader :: "control_frame_header \<Rightarrow> writer \<Rightarrow> go_error option \<times> writer" where
  "writeControlFrameHeader h w = write_all (header_chunks h) w"

section \<open>Header blocks\<close>

definition MaxInt32 :: nat where "MaxInt32 = 2 ^ 31 - 1"

text \<open>
  \<open>writeHeaderValueBlock\<close> over any \<open>io.Writer\<close>: \<open>wr\<close> is its \<open>Write\<close>.  The
  result carries the count \<open>n\<close>, the error and the writer.
\<close>

type_synonym 's write_fun = "byte list \<Rightarrow> 's \<Rightarrow> go_error option \<times> 's"

fun writeHeaders :: "'s write_fun \<Rightarrow> ('c, 'd) golib \<Rightarrow> nat \<Rightarrow> http_header \<Rightarrow> 's \<Rightarrow> nat \<times> go_error option \<times> 's" where
  "writeHeaders wr lib n [] s = (n, None, s)"
| "writeHeaders wr lib n ((name, values) # h) s =
     (let nameLen = length name in
      if nameLen > MaxInt32 then (n, Some (SpdyError InvalidControlFrame 0), s)
      else (case wr (be32 (word_of_nat nameLen)) s of
        (Some err, s) \<Rightarrow> (n, Some err, s)
      | (None, s) \<Rightarrow>
          (case wr (toLower lib name) s of
            (Some err, s) \<Rightarrow> (n + 4, Some err, s)
          | (None, s) \<Rightarrow>
              (let v = joinSep values; vLen = length v in
               if vLen > MaxInt32 then (n + 4 + nameLen, Some (SpdyError InvalidControlFrame 0), s)
               else (case wr (be32 (word_of_nat vLen)) s of
                 (Some err, s) \<Rightarrow> (n + 4 + nameLen, Some err, s)
               | (None, s) \<Rightarrow>
                   (case wr v s of
                     (Some err, s) \<Rightarrow> (n + 4 + nameLen + 4, Some err, s)
                   | (None, s) \<Rightarrow> writeHeaders wr lib (n + 4 + nameLen + 4 + vLen) h s))))))"

definition writeHeaderValueBlock ::
  "'s write_fun \<Rightarrow> ('c, 'd) golib \<Rightarrow> http_header \<Rightarrow> 's \<Rightarrow> nat \<times> go_error option \<times> 's" where
  "writeHeaderValueBlock wr lib h s =
     (let numHeaders = length h in
      if numHeaders > MaxInt32 then (0, Some (SpdyError InvalidControlFrame 0), s)
      else (case wr (be32 (word_of_nat numHeaders)) s of
        (Some err, s) \<Rightarrow> (0, Some err, s)
      | (None, s) \<Rightarrow> writeHeaders wr lib 4 h s))"

text \<open>
  The two writers the framer marshals headers to: the buffer itself (a \<open>bytes.Buffer\<close>,
  whose \<open>Write\<close> never fails), and the compressor, whose output goes to the buffer.
\<close>

definition headerBuf_Write :: "('c, 'd) framer write_fun" where
  "headerBuf_Write bs f = (None, f\<lparr>headerBuf := headerBuf f @ bs\<rparr>)"

definition headerCompressor_Write :: "('c, 'd) golib \<Rightarrow> ('c, 'd) framer write_fun" where
  "headerCompressor_Write lib bs f =
     (case zw_write lib bs (headerCompressor f) of
        (err, c, out) \<Rightarrow> (err, f\<lparr>headerCompressor := c, headerBuf := headerBuf f @ out\<rparr>))"

definition headerCompressor_Flush :: "('c, 'd) golib \<Rightarrow> ('c, 'd) framer \<Rightarrow> ('c, 'd) framer" where
  "headerCompressor_Flush lib f =
     (case zw_flush lib (headerCompressor f) of
        (c, out) \<Rightarrow> f\<lparr>headerCompressor := c, headerBuf := headerBuf f @ out\<rparr>)"

text \<open>
  The block ``Marshal the headers'', which the three header-carrying frames share word for
  word: choose the writer, write the header block, flush the compressor.
\<close>

definition marshalHeaders ::
  "('c, 'd) golib \<Rightarrow> http_header \<Rightarrow> ('c, 'd) framer \<Rightarrow> go_error option \<times> ('c, 'd) framer" where
  "marshalHeaders lib h f =
     (let wr = (if \<not> headerCompressionDisabled f then headerCompressor_Write lib else headerBuf_Write)
      in case writeHeaderValueBlock wr lib h f of
           (n, Some err, f') \<Rightarrow> (Some err, f')
         | (n, None, f') \<Rightarrow>
             (None, if \<not> headerCompressionDisabled f then headerCompressor_Flush lib f' else f'))"

section \<open>Frames\<close>

text \<open>Send chunks over the framer's connection.\<close>

definition f_send :: "byte list list \<Rightarrow> ('c, 'd) framer \<Rightarrow> go_error option \<times> ('c, 'd) framer" where
  "f_send bs f = (case write_all bs (f_w f) of (err, w) \<Rightarrow> (err, f\<lparr>f_w := w\<rparr>))"

type_synonym ('c, 'd, 'f) write_method = "('c, 'd) framer \<Rightarrow> 'f \<Rightarrow> go_error option \<times> ('c, 'd) framer \<times> 'f"

definition with_frame :: "'f \<Rightarrow> go_error option \<times> 's \<Rightarrow> go_error option \<times> 's \<times> 'f" where
  "with_frame fr r = (case r of (err, f) \<Rightarrow> (err, f, fr))"

lemma with_frame_simp [simp, res_simps]: "with_frame fr (err, f) = (err, f, fr)"
  by (simp add: with_frame_def)

definition write_RstStream :: "('c, 'd, rst_stream_frame) write_method" where
  "write_RstStream f frame =
     (if rs_StreamId frame = 0 then (Some (SpdyError ZeroStreamId 0), f, frame)
      else let frame = frame\<lparr>rs_CFHeader :=
                 \<lparr>cf_version = Version, cf_frameType = TypeRstStream, cf_Flags = 0, cf_length = 8\<rparr>\<rparr>
      in with_frame frame
        (wthen (f_send (header_chunks (rs_CFHeader frame)) f) (\<lambda>f.
         wthen (f_send [be32 (rs_StreamId frame)] f) (\<lambda>f.
         if rs_Status frame = 0 then (Some (SpdyError InvalidControlFrame (rs_StreamId frame)), f)
         else f_send [be32 (rs_Status frame)] f))))"

definition setting_chunks :: "settings_flag_id_value \<Rightarrow> byte list list" where
  "setting_chunks v = [be32 (pack24 (sv_Flag v) (sv_Id v)), be32 (sv_Value v)]"

definition write_Settings :: "('c, 'd, settings_frame) write_method" where
  "write_Settings f frame =
     (let h = (st_CFHeader frame)\<lparr>cf_version := Version, cf_frameType := TypeSettings\<rparr>;
          frame = frame\<lparr>st_CFHeader := h\<rparr>;
          n = length (st_FlagIdValues frame);
          payloadLen = n * 8 + 4
      in if payloadLen > MaxDataLength then (Some (SpdyError InvalidControlFrame 0), f, frame)
      else let frame = frame\<lparr>st_CFHeader := h\<lparr>cf_length := word_of_nat payloadLen\<rparr>\<rparr>
      in with_frame frame
        (wthen (f_send (header_chunks (st_CFHeader frame)) f) (\<lambda>f.
         if n > 2 ^ 32 - 1 then (Some (SpdyError InvalidControlFrame 0), f)
         else wthen (f_send [be32 (word_of_nat n)] f) (\<lambda>f.
           f_send (concat (map setting_chunks (st_FlagIdValues frame))) f))))"

definition write_Ping :: "('c, 'd, ping_frame) write_method" where
  "write_Ping f frame =
     (if pg_Id frame = 0 then (Some (SpdyError ZeroStreamId 0), f, frame)
      else let frame = frame\<lparr>pg_CFHeader :=
                 \<lparr>cf_version = Version, cf_frameType = TypePing, cf_Flags = 0, cf_length = 4\<rparr>\<rparr>
      in with_frame frame
        (wthen (f_send (header_chunks (pg_CFHeader frame)) f) (\<lambda>f.
         f_send [be32 (pg_Id frame)] f)))"

definition write_GoAway :: "('c, 'd, go_away_frame) write_method" where
  "write_GoAway f frame =
     (let frame = frame\<lparr>ga_CFHeader :=
            \<lparr>cf_version = Version, cf_frameType = TypeGoAway, cf_Flags = 0, cf_length = 8\<rparr>\<rparr>
      in with_frame frame
        (wthen (f_send (header_chunks (ga_CFHeader frame)) f) (\<lambda>f.
         f_send [be32 (ga_LastGoodStreamId frame), be32 (ga_Status frame)] f)))"

definition write_WindowUpdate :: "('c, 'd, window_update_frame) write_method" where
  "write_WindowUpdate f frame =
     (let frame = frame\<lparr>wu_CFHeader :=
            \<lparr>cf_version = Version, cf_frameType = TypeWindowUpdate, cf_Flags = 0, cf_length = 8\<rparr>\<rparr>
      in with_frame frame
        (wthen (f_send (header_chunks (wu_CFHeader frame)) f) (\<lambda>f.
         f_send [be32 (wu_StreamId frame), be32 (wu_DeltaWindowSize frame)] f)))"

text \<open>After a frame with headers is out, the buffer is reset.\<close>

definition reset_headerBuf :: "go_error option \<times> ('c, 'd) framer \<Rightarrow> go_error option \<times> ('c, 'd) framer" where
  "reset_headerBuf r = wthen r (\<lambda>f. (None, f\<lparr>headerBuf := []\<rparr>))"

definition writeSynStreamFrame :: "('c, 'd) golib \<Rightarrow> ('c, 'd, syn_stream_frame) write_method" where
  "writeSynStreamFrame lib f frame =
     (if ss_StreamId frame = 0 then (Some (SpdyError ZeroStreamId 0), f, frame)
      else case marshalHeaders lib (ss_Headers frame) f of
        (Some err, f) \<Rightarrow> (Some err, f, frame)
      | (None, f) \<Rightarrow>
          (let h = (ss_CFHeader frame)\<lparr>cf_version := Version, cf_frameType := TypeSynStream\<rparr>;
               frame = frame\<lparr>ss_CFHeader := h\<rparr>;
               hLen = length (headerBuf f) + 10
           in if hLen > MaxDataLength then (Some (SpdyError InvalidControlFrame 0), f, frame)
           else let frame = frame\<lparr>ss_CFHeader := h\<lparr>cf_length := word_of_nat hLen\<rparr>\<rparr>
           in with_frame frame (reset_headerBuf
             (wthen (f_send (header_chunks (ss_CFHeader frame)) f) (\<lambda>f.
              f_send [be32 (ss_StreamId frame), be32 (ss_AssociatedToStreamId frame),
                      be8 (push_bit 5 (ss_Priority frame)), be8 (ss_Slot frame),
                      headerBuf f] f)))))"

definition writeSynReplyFrame :: "('c, 'd) golib \<Rightarrow> ('c, 'd, syn_reply_frame) write_method" where
  "writeSynReplyFrame lib f frame =
     (if sr_StreamId frame = 0 then (Some (SpdyError ZeroStreamId 0), f, frame)
      else case marshalHeaders lib (sr_Headers frame) f of
        (Some err, f) \<Rightarrow> (Some err, f, frame)
      | (None, f) \<Rightarrow>
          (let h = (sr_CFHeader frame)\<lparr>cf_version := Version, cf_frameType := TypeSynReply\<rparr>;
               frame = frame\<lparr>sr_CFHeader := h\<rparr>;
               hLen = length (headerBuf f) + 4
           in if hLen > MaxDataLength then (Some (SpdyError InvalidControlFrame 0), f, frame)
           else let frame = frame\<lparr>sr_CFHeader := h\<lparr>cf_length := word_of_nat hLen\<rparr>\<rparr>
           in with_frame frame (reset_headerBuf
             (wthen (f_send (header_chunks (sr_CFHeader frame)) f) (\<lambda>f.
              f_send [be32 (sr_StreamId frame), headerBuf f] f)))))"

definition writeHeadersFrame :: "('c, 'd) golib \<Rightarrow> ('c, 'd, headers_frame) write_method" where
  "writeHeadersFrame lib f frame =
     (if hd_StreamId frame = 0 then (Some (SpdyError ZeroStreamId 0), f, frame)
      else case marshalHeaders lib (hd_Headers frame) f of
        (Some err, f) \<Rightarrow> (Some err, f, frame)
      | (None, f) \<Rightarrow>
          (let h = (hd_CFHeader frame)\<lparr>cf_version := Version, cf_frameType := TypeHeaders\<rparr>;
               frame = frame\<lparr>hd_CFHeader := h\<rparr>;
               hLen = length (headerBuf f) + 4
           in if hLen > MaxDataLength then (Some (SpdyError InvalidControlFrame 0), f, frame)
           else let frame = frame\<lparr>hd_CFHeader := h\<lparr>cf_length := word_of_nat hLen\<rparr>\<rparr>
           in with_frame frame (reset_headerBuf
             (wthen (f_send (header_chunks (hd_CFHeader frame)) f) (\<lambda>f.
              f_send [be32 (hd_StreamId frame), headerBuf f] f)))))"

definition writeDataFrame :: "('c, 'd, data_frame) write_method" where
  "writeDataFrame f frame =
     (if df_StreamId frame = 0 then (Some (SpdyError ZeroStreamId 0), f, frame)
      else if df_StreamId frame AND 0x80000000 \<noteq> 0 \<or> length (df_Data frame) > MaxDataLength
      then (Some (SpdyError InvalidDataFrame (df_StreamId frame)), f, frame)
      else with_frame frame
        (wthen (f_send [be32 (df_StreamId frame)] f) (\<lambda>f.
         let dLen = length (df_Data frame) in
         if dLen > MaxDataLength then (Some (SpdyError InvalidDataFrame (df_StreamId frame)), f)
         else f_send [be32 (pack24 (df_Flags frame) (word_of_nat dLen)),
                      df_Data frame] f)))"

definition map_frame :: "('f \<Rightarrow> 'g) \<Rightarrow> go_error option \<times> 's \<times> 'f \<Rightarrow> go_error option \<times> 's \<times> 'g" where
  "map_frame c r = (case r of (err, f, fr) \<Rightarrow> (err, f, c fr))"

lemma map_frame_simp [simp, res_simps]: "map_frame c (err, f, fr) = (err, f, c fr)"
  by (simp add: map_frame_def)

text \<open>\<open>Framer.WriteFrame\<close> calls the frame's own \<open>write\<close> method.\<close>

fun WriteFrame :: "('c, 'd) golib \<Rightarrow> ('c, 'd, frame) write_method" where
  "WriteFrame lib f (SynStream fr) = map_frame SynStream (writeSynStreamFrame lib f fr)"
| "WriteFrame lib f (SynReply fr) = map_frame SynReply (writeSynReplyFrame lib f fr)"
| "WriteFrame lib f (RstStream fr) = map_frame RstStream (write_RstStream f fr)"
| "WriteFrame lib f (Settings fr) = map_frame Settings (write_Settings f fr)"
| "WriteFrame lib f (Ping fr) = map_frame Ping (write_Ping f fr)"
| "WriteFrame lib f (GoAway fr) = map_frame GoAway (write_GoAway f fr)"
| "WriteFrame lib f (Headers fr) = map_frame Headers (writeHeadersFrame lib f fr)"
| "WriteFrame lib f (WindowUpdate fr) = map_frame WindowUpdate (write_WindowUpdate f fr)"
| "WriteFrame lib f (Data fr) = map_frame Data (writeDataFrame f fr)"

end
