(* ===== verification/Spdy_Read.thy ===== *)
theory Spdy_Read
  imports Go_Lib
begin

text \<open>
  The decoder, \<^verbatim>\<open>spdy/read.go\<close>.  A \<open>read\<close> method takes the control header that
  was parsed before it and the framer; it returns the frame or the error, and the framer.
\<close>

type_synonym ('c, 'd, 'a) fr_result = "(go_error, 'a, ('c, 'd) framer) result"

text \<open>A read from the framer's connection.\<close>

definition onConn :: "(reader \<Rightarrow> (go_error, 'a, reader) result) \<Rightarrow> ('c, 'd) framer \<Rightarrow> ('c, 'd, 'a) fr_result" where
  "onConn op f = (case op (f_r f) of (x, r) \<Rightarrow> (x, f\<lparr>f_r := r\<rparr>))"

definition fReadU32 :: "('c, 'd) framer \<Rightarrow> ('c, 'd, u32) fr_result" where
  "fReadU32 = onConn (readU32 readFull)"

definition fReadU8 :: "('c, 'd) framer \<Rightarrow> ('c, 'd, u8) fr_result" where
  "fReadU8 = onConn (readU8 readFull)"

section \<open>Frames of fixed layout\<close>

definition read_RstStream :: "control_frame_header \<Rightarrow> ('c, 'd) framer \<Rightarrow> ('c, 'd, rst_stream_frame) fr_result" where
  "read_RstStream h f =
     rbind (fReadU32 f) (\<lambda>sid f.
     rbind (fReadU32 f) (\<lambda>status f.
     if status = 0 then (Inl (SpdyError InvalidControlFrame sid), f)
     else if sid = 0 then (Inl (SpdyError ZeroStreamId 0), f)
     else (Inr \<lparr>rs_CFHeader = h, rs_StreamId = sid, rs_Status = status\<rparr>, f)))"

text \<open>
  The loop over \<open>frame.FlagIdValues\<close>, \<open>n\<close> entries to go: the high byte of the first
  word is the flag, the low three are the id.
\<close>

fun read_settings :: "nat \<Rightarrow> ('c, 'd) framer \<Rightarrow> ('c, 'd, settings_flag_id_value list) fr_result" where
  "read_settings 0 f = (Inr [], f)"
| "read_settings (Suc n) f =
     rbind (fReadU32 f) (\<lambda>w f.
     rbind (fReadU32 f) (\<lambda>value f.
     rbind (read_settings n f) (\<lambda>vs f.
       (Inr (\<lparr>sv_Flag = ucast (drop_bit 24 (w AND 0xff000000)), sv_Id = w AND 0xffffff,
             sv_Value = value\<rparr> # vs), f))))"

definition read_Settings :: "control_frame_header \<Rightarrow> ('c, 'd) framer \<Rightarrow> ('c, 'd, settings_frame) fr_result" where
  "read_Settings h f =
     rbind (fReadU32 f) (\<lambda>numSettings f.
     if cf_length h < 4 \<or> numSettings > (cf_length h - 4) div 8
     then (Inl (SpdyError InvalidControlFrame 0), f)
     else rbind (read_settings (unat numSettings) f) (\<lambda>vs f.
       (Inr \<lparr>st_CFHeader = h, st_FlagIdValues = vs\<rparr>, f)))"

definition read_Ping :: "control_frame_header \<Rightarrow> ('c, 'd) framer \<Rightarrow> ('c, 'd, ping_frame) fr_result" where
  "read_Ping h f =
     rbind (fReadU32 f) (\<lambda>i f.
     if i = 0 then (Inl (SpdyError ZeroStreamId 0), f)
     else if cf_Flags h \<noteq> 0 then (Inl (SpdyError InvalidControlFrame i), f)
     else (Inr \<lparr>pg_CFHeader = h, pg_Id = i\<rparr>, f))"

definition read_GoAway :: "control_frame_header \<Rightarrow> ('c, 'd) framer \<Rightarrow> ('c, 'd, go_away_frame) fr_result" where
  "read_GoAway h f =
     rbind (fReadU32 f) (\<lambda>lastId f.
     if cf_Flags h \<noteq> 0 then (Inl (SpdyError InvalidControlFrame lastId), f)
     else if cf_length h \<noteq> 8 then (Inl (SpdyError InvalidControlFrame lastId), f)
     else rbind (fReadU32 f) (\<lambda>status f.
       (Inr \<lparr>ga_CFHeader = h, ga_LastGoodStreamId = lastId, ga_Status = status\<rparr>, f)))"

definition read_WindowUpdate :: "control_frame_header \<Rightarrow> ('c, 'd) framer \<Rightarrow> ('c, 'd, window_update_frame) fr_result" where
  "read_WindowUpdate h f =
     rbind (fReadU32 f) (\<lambda>sid f.
     if cf_Flags h \<noteq> 0 then (Inl (SpdyError InvalidControlFrame sid), f)
     else if cf_length h \<noteq> 8 then (Inl (SpdyError InvalidControlFrame sid), f)
     else rbind (fReadU32 f) (\<lambda>delta f.
       (Inr \<lparr>wu_CFHeader = h, wu_StreamId = sid, wu_DeltaWindowSize = delta\<rparr>, f)))"

section \<open>Header blocks\<close>

text \<open>
  The loop of \<open>parseHeaderValueBlock\<close> with \<open>n\<close> headers to go.  \<open>e\<close> is the error
  that is remembered while the loop reads on; a remembered error replaces an older one.
\<close>

fun parseHeaders ::
  "'s read_full \<Rightarrow> ('c, 'd) golib \<Rightarrow> u32 \<Rightarrow> stream_id \<Rightarrow> nat \<Rightarrow> http_header \<Rightarrow> go_error option \<Rightarrow> 's
   \<Rightarrow> (go_error, http_header \<times> go_error option, 's) result" where
  "parseHeaders rf lib maxFieldSize streamId 0 h e s = (Inr (h, e), s)"
| "parseHeaders rf lib maxFieldSize streamId (Suc n) h e s =
     rbind (readU32 rf s) (\<lambda>len s.
     if len > maxFieldSize then (Inl (SpdyError InvalidControlFrame streamId), s)
     else rbind (rf (unat len) s) (\<lambda>nameBytes s.
       let name = toLower lib nameBytes;
           e = (if nameBytes \<noteq> name then Some (SpdyError UnlowercasedHeaderName streamId) else e);
           e = (if map_of h name \<noteq> None then Some (SpdyError DuplicateHeaders streamId) else e)
       in rbind (readU32 rf s) (\<lambda>len s.
          if len > maxFieldSize then (Inl (SpdyError InvalidControlFrame streamId), s)
          else rbind (rf (unat len) s) (\<lambda>value s.
            parseHeaders rf lib maxFieldSize streamId n
              (header_AddAll h name (splitSep value)) e s))))"

text \<open>The limits: an option that is not set (0) leaves the default in force.\<close>

definition maxHeaders_of :: "('c, 'd) framer \<Rightarrow> u32" where
  "maxHeaders_of f = (if maxHeaderCount f > 0 then maxHeaderCount f else defaultMaxHeaderCount)"

definition maxFieldSize_of :: "('c, 'd) framer \<Rightarrow> u32" where
  "maxFieldSize_of f = (if maxHeaderFieldSize f > 0 then maxHeaderFieldSize f else defaultMaxHeaderFieldSize)"

definition parseHeaderValueBlock ::
  "('c, 'd) framer \<Rightarrow> 's read_full \<Rightarrow> ('c, 'd) golib \<Rightarrow> stream_id \<Rightarrow> 's \<Rightarrow> (go_error, http_header, 's) result" where
  "parseHeaderValueBlock f rf lib streamId s =
     rbind (readU32 rf s) (\<lambda>numHeaders s.
     if numHeaders > maxHeaders_of f then (Inl (SpdyError InvalidControlFrame streamId), s)
     else rbind (parseHeaders rf lib (maxFieldSize_of f) streamId (unat numHeaders) [] None s) (\<lambda>(h, e) s.
       case e of Some err \<Rightarrow> (Inl err, s) | None \<Rightarrow> (Inr h, s)))"

definition uncorkHeaderDecompressor ::
  "('c, 'd) golib \<Rightarrow> nat \<Rightarrow> ('c, 'd) framer \<Rightarrow> ('c, 'd, 'd) fr_result" where
  "uncorkHeaderDecompressor lib payloadSize f =
     (case headerDecompressor f of
        Some d \<Rightarrow> (Inr d, f\<lparr>headerReader_N := payloadSize\<rparr>)
      | None \<Rightarrow>
          (case zr_new lib headerDictionary (f_r f, payloadSize) of
             (Inl err, r, n) \<Rightarrow> (Inl err, f\<lparr>f_r := r, headerReader_N := n\<rparr>)
           | (Inr d, r, n) \<Rightarrow> (Inr d, f\<lparr>f_r := r, headerReader_N := n, headerDecompressor := Some d\<rparr>)))"

text \<open>
  The block from \<open>reader := f.r\<close> to the check of \<open>err\<close>, which the three
  header-carrying frames share word for word.  \<open>payloadSize\<close> is the number of bytes the
  header block may take: the frame's length less the fixed part, a \<open>uint32\<close> difference
  that wraps around.
\<close>

definition readHeaderBlock ::
  "('c, 'd) golib \<Rightarrow> u32 \<Rightarrow> stream_id \<Rightarrow> ('c, 'd) framer \<Rightarrow> ('c, 'd, http_header) fr_result" where
  "readHeaderBlock lib payloadSize streamId f =
     (if headerCompressionDisabled f then onConn (parseHeaderValueBlock f readFull lib streamId) f
      else rbind (uncorkHeaderDecompressor lib (unat payloadSize) f) (\<lambda>d f.
        case parseHeaderValueBlock f (zr_readFull lib) lib streamId (d, f_r f, headerReader_N f) of
          (res, d, r, n) \<Rightarrow>
            (if res = Inl EOF \<and> n = 0 \<or> n \<noteq> 0
             then Inl (SpdyError WrongCompressedPayloadSize 0) else res,
             f\<lparr>headerDecompressor := Some d, f_r := r, headerReader_N := n\<rparr>)))"

text \<open>\<open>for h := range frame.Headers { if invalid[h] { return ... } }\<close>\<close>

definition has_invalid :: "gostring list \<Rightarrow> http_header \<Rightarrow> bool" where
  "has_invalid invalid h = list_ex (\<lambda>(name, _). name \<in> set invalid) h"

definition readSynStreamFrame ::
  "('c, 'd) golib \<Rightarrow> control_frame_header \<Rightarrow> ('c, 'd) framer \<Rightarrow> ('c, 'd, syn_stream_frame) fr_result" where
  "readSynStreamFrame lib h f =
     rbind (fReadU32 f) (\<lambda>sid f.
     rbind (fReadU32 f) (\<lambda>assoc f.
     rbind (fReadU8 f) (\<lambda>prio f.
     let prio = drop_bit 5 prio in
     rbind (fReadU8 f) (\<lambda>slot f.
     rbind (readHeaderBlock lib (cf_length h - 10) sid f) (\<lambda>hdrs f.
     if has_invalid invalidReqHeaders hdrs then (Inl (SpdyError InvalidHeaderPresent sid), f)
     else if sid = 0 then (Inl (SpdyError ZeroStreamId 0), f)
     else (Inr \<lparr>ss_CFHeader = h, ss_StreamId = sid, ss_AssociatedToStreamId = assoc,
                ss_Priority = prio, ss_Slot = slot, ss_Headers = hdrs\<rparr>, f))))))"

definition readSynReplyFrame ::
  "('c, 'd) golib \<Rightarrow> control_frame_header \<Rightarrow> ('c, 'd) framer \<Rightarrow> ('c, 'd, syn_reply_frame) fr_result" where
  "readSynReplyFrame lib h f =
     rbind (fReadU32 f) (\<lambda>sid f.
     rbind (readHeaderBlock lib (cf_length h - 4) sid f) (\<lambda>hdrs f.
     if has_invalid invalidRespHeaders hdrs then (Inl (SpdyError InvalidHeaderPresent sid), f)
     else if sid = 0 then (Inl (SpdyError ZeroStreamId 0), f)
     else (Inr \<lparr>sr_CFHeader = h, sr_StreamId = sid, sr_Headers = hdrs\<rparr>, f)))"

definition readHeadersFrame ::
  "('c, 'd) golib \<Rightarrow> control_frame_header \<Rightarrow> ('c, 'd) framer \<Rightarrow> ('c, 'd, headers_frame) fr_result" where
  "readHeadersFrame lib h f =
     rbind (fReadU32 f) (\<lambda>sid f.
     rbind (readHeaderBlock lib (cf_length h - 4) sid f) (\<lambda>hdrs f.
     let invalidHeaders = (if sid mod 2 = 0 then invalidReqHeaders else invalidRespHeaders) in
     if has_invalid invalidHeaders hdrs then (Inl (SpdyError InvalidHeaderPresent sid), f)
     else if sid = 0 then (Inl (SpdyError ZeroStreamId 0), f)
     else (Inr \<lparr>hd_CFHeader = h, hd_StreamId = sid, hd_Headers = hdrs\<rparr>, f)))"

section \<open>Dispatch\<close>

definition map_res :: "('a \<Rightarrow> 'b) \<Rightarrow> ('e, 'a, 's) result \<Rightarrow> ('e, 'b, 's) result" where
  "map_res c r = rbind r (\<lambda>a s. (Inr (c a), s))"

lemma map_res_simps [simp, res_simps]:
  "map_res c (Inl e, s) = (Inl e, s)" "map_res c (Inr a, s) = (Inr (c a), s)"
  by (simp_all add: map_res_def)

text \<open>
  The table \<open>cframeCtor\<close>: for a known type, the new frame's \<open>read\<close> method.
\<close>

definition cframeCtor ::
  "('c, 'd) golib \<Rightarrow> u16 \<Rightarrow> (control_frame_header \<Rightarrow> ('c, 'd) framer \<Rightarrow> ('c, 'd, frame) fr_result) option" where
  "cframeCtor lib t =
     (if t = TypeSynStream then Some (\<lambda>h f. map_res SynStream (readSynStreamFrame lib h f))
      else if t = TypeSynReply then Some (\<lambda>h f. map_res SynReply (readSynReplyFrame lib h f))
      else if t = TypeRstStream then Some (\<lambda>h f. map_res RstStream (read_RstStream h f))
      else if t = TypeSettings then Some (\<lambda>h f. map_res Settings (read_Settings h f))
      else if t = TypePing then Some (\<lambda>h f. map_res Ping (read_Ping h f))
      else if t = TypeGoAway then Some (\<lambda>h f. map_res GoAway (read_GoAway h f))
      else if t = TypeHeaders then Some (\<lambda>h f. map_res Headers (readHeadersFrame lib h f))
      else if t = TypeWindowUpdate then Some (\<lambda>h f. map_res WindowUpdate (read_WindowUpdate h f))
      else None)"

definition maxControlFramePayload_of :: "('c, 'd) framer \<Rightarrow> u32" where
  "maxControlFramePayload_of f =
     (if maxFrameLength f > 0 then maxFrameLength f else word_of_nat MaxDataLength)"

definition parseControlFrame ::
  "('c, 'd) golib \<Rightarrow> u16 \<Rightarrow> u16 \<Rightarrow> ('c, 'd) framer \<Rightarrow> ('c, 'd, frame) fr_result" where
  "parseControlFrame lib version frameType f =
     rbind (fReadU32 f) (\<lambda>w f.
     let flags = ucast (drop_bit 24 (w AND 0xff000000)); len = w AND 0xffffff in
     if len > maxControlFramePayload_of f
     then rbind (onConn (discardN (unat len)) f) (\<lambda>_ f. (Inl (SpdyError InvalidControlFrame 0), f))
     else case cframeCtor lib frameType of
       None \<Rightarrow> (Inl (SpdyError InvalidControlFrame 0), f)
     | Some rd \<Rightarrow>
         rd \<lparr>cf_version = version, cf_frameType = frameType, cf_Flags = flags, cf_length = len\<rparr> f)"

definition parseDataFrame :: "stream_id \<Rightarrow> ('c, 'd) framer \<Rightarrow> ('c, 'd, data_frame) fr_result" where
  "parseDataFrame streamId f =
     rbind (fReadU32 f) (\<lambda>w f.
     let len = w AND 0xffffff in
     rbind (onConn (readFull (unat len)) f) (\<lambda>bs f.
     if streamId = 0 then (Inl (SpdyError ZeroStreamId 0), f)
     else (Inr \<lparr>df_StreamId = streamId, df_Flags = ucast (drop_bit 24 w), df_Data = bs\<rparr>, f)))"

definition ReadFrame :: "('c, 'd) golib \<Rightarrow> ('c, 'd) framer \<Rightarrow> ('c, 'd, frame) fr_result" where
  "ReadFrame lib f =
     rbind (fReadU32 f) (\<lambda>firstWord f.
     if firstWord AND 0x80000000 \<noteq> 0
     then parseControlFrame lib (ucast (drop_bit 16 firstWord AND 0x7fff)) (ucast (firstWord AND 0xffff)) f
     else map_res Data (parseDataFrame (firstWord AND 0x7fffffff) f))"

end
