(* ===== verification/Go_Header.thy ===== *)
theory Go_Header
  imports Go_Lib
begin

text \<open>
  Facts on header names: lower-casing and canonicalisation settle after one step, so a name
  is stable once it has been over the wire; and the shape of the headers that survive the trip.
\<close>

section \<open>Lower-casing and canonical names are idempotent\<close>

definition canon1 :: "bool \<Rightarrow> byte \<Rightarrow> byte" where
  "canon1 upper c = (if upper \<and> 97 \<le> c \<and> c \<le> 122 then c - 32
                else if \<not> upper \<and> 65 \<le> c \<and> c \<le> 90 then c + 32 else c)"

lemma letter_shift:
  "97 \<le> (c :: byte) \<Longrightarrow> c \<le> 122 \<Longrightarrow> 65 \<le> c - 32 \<and> c - 32 \<le> 90"
  "65 \<le> (c :: byte) \<Longrightarrow> c \<le> 90 \<Longrightarrow> 97 \<le> c + 32 \<and> c + 32 \<le> 122"
proof -
  assume c: "97 \<le> c" "c \<le> 122"
  then have "unat (c - 32) = unat c - 32"
    by (simp add: unat_sub word_le_nat_alt)
  with c show "65 \<le> c - 32 \<and> c - 32 \<le> 90" by (simp add: word_le_nat_alt) linarith
next
  assume c: "65 \<le> c" "c \<le> 90"
  then have "unat (c + 32) = unat c + 32"
    by (simp add: word_le_nat_alt unat_word_ariths)
  with c show "97 \<le> c + 32 \<and> c + 32 \<le> 122" by (simp add: word_le_nat_alt)
qed

lemma letter_disjoint: "(c :: byte) \<le> 90 \<Longrightarrow> \<not> 97 \<le> c" "97 \<le> (c :: byte) \<Longrightarrow> \<not> c \<le> 90"
  by (simp_all add: word_le_nat_alt)

lemma ascii_lower_idem [simp]: "ascii_lower (ascii_lower c) = ascii_lower c"
  using letter_shift(2) [of c] letter_disjoint(1) [of "c + 32"] by (auto simp: ascii_lower_def)

lemma ascii_lower_ascii: "c < 0x80 \<Longrightarrow> ascii_lower c < 0x80"
proof -
  assume "c < 0x80"
  moreover have "d < 0x80" if "d \<le> 122" for d :: byte
    using that by (simp add: word_le_nat_alt word_less_nat_alt)
  ultimately show ?thesis using letter_shift(2) [of c] by (simp add: ascii_lower_def)
qed

lemma is_ascii_toLower: "is_ascii s \<Longrightarrow> is_ascii (toLower lib s)"
  by (auto simp: toLower_def is_ascii_def list_all_iff ascii_lower_ascii)

lemma toLower_idem: "is_ascii s \<Longrightarrow> toLower lib (toLower lib s) = toLower lib s"
  using is_ascii_toLower [of s lib] by (simp add: toLower_def)

lemma length_toLower: "is_ascii s \<Longrightarrow> length (toLower lib s) = length s"
  by (simp add: toLower_def)

lemma canon1_idem: "canon1 u (canon1 u c) = canon1 u c"
proof -
  consider "u" "97 \<le> c" "c \<le> 122" | "\<not> u" "65 \<le> c" "c \<le> 90"
    | "\<not> (u \<and> 97 \<le> c \<and> c \<le> 122)" "\<not> (\<not> u \<and> 65 \<le> c \<and> c \<le> 90)" by blast
  then show ?thesis
  proof cases
    case 1
    then have "canon1 u c = c - 32" "\<not> 97 \<le> c - 32"
      using letter_shift(1) letter_disjoint(1) by (simp_all add: canon1_def)
    with 1 show ?thesis by (simp add: canon1_def)
  next
    case 2
    then have "canon1 u c = c + 32" "\<not> c + 32 \<le> 90"
      using letter_shift(2) letter_disjoint(2) by (simp_all add: canon1_def)
    with 2 show ?thesis by (simp add: canon1_def)
  next
    case 3
    then have "canon1 u c = c" by (auto simp: canon1_def)
    then show ?thesis by simp
  qed
qed

lemma canon1_token: "isTokenByte c \<Longrightarrow> isTokenByte (canon1 u c)"
proof -
  assume "isTokenByte c"
  moreover have "isTokenByte d" if "65 \<le> d" "d \<le> 90" for d
    using that by (simp add: isTokenByte_def)
  moreover have "isTokenByte d" if "97 \<le> d" "d \<le> 122" for d
  proof -
    have "94 \<le> d" using that(1) by unat_arith
    with that(2) show ?thesis by (simp add: isTokenByte_def)
  qed
  ultimately show ?thesis
    using letter_shift [of c] by (simp add: canon1_def)
qed

lemma canonBytes_Cons: "canonBytes u (c # s) = canon1 u c # canonBytes (canon1 u c = 45) s"
  by (simp add: canon1_def Let_def)

lemma canonBytes_idem: "canonBytes u (canonBytes u s) = canonBytes u s"
  by (induction s arbitrary: u) (simp_all add: canonBytes_Cons canon1_idem del: canonBytes.simps(2))

lemma canonBytes_token: "list_all isTokenByte s \<Longrightarrow> list_all isTokenByte (canonBytes u s)"
  by (induction s arbitrary: u) (simp_all add: canonBytes_Cons canon1_token del: canonBytes.simps(2))

lemma canonicalKey_idem [simp]: "canonicalKey (canonicalKey s) = canonicalKey s"
  by (simp add: canonicalKey_def canonBytes_idem canonBytes_token)

section \<open>What arrives of a header\<close>

text \<open>
  The encoder sends a name in lower case and the decoder stores it under its canonical form;
  the values come back as they were if none of them holds a separator.
\<close>

definition recv_name :: "('c, 'd) golib \<Rightarrow> gostring \<Rightarrow> gostring" where
  "recv_name lib n = canonicalKey (toLower lib n)"

definition recv_header :: "('c, 'd) golib \<Rightarrow> http_header \<Rightarrow> http_header" where
  "recv_header lib h = map (\<lambda>(n, vs). (recv_name lib n, vs)) h"

definition wf_entry :: "u32 \<Rightarrow> gostring \<times> gostring list \<Rightarrow> bool" where
  "wf_entry maxField kv = (case kv of (n, vs) \<Rightarrow>
     is_ascii n \<and> vs \<noteq> [] \<and> (\<forall>v\<in>set vs. headerValueSeparator \<notin> set v) \<and>
     length n \<le> unat maxField \<and> length (joinSep vs) \<le> unat maxField)"

text \<open>
  A header that survives the trip, under the receiver's limits: names that stay different
  under \<open>recv_name\<close>, ASCII and within the size limit, and values without separators.
\<close>

definition wf_header :: "('c, 'd) golib \<Rightarrow> u32 \<Rightarrow> u32 \<Rightarrow> http_header \<Rightarrow> bool" where
  "wf_header lib maxCount maxField h =
     (distinct (map (\<lambda>kv. recv_name lib (fst kv)) h) \<and> list_all (wf_entry maxField) h \<and>
      length h \<le> unat maxCount)"

lemma recv_name_idem: "canonicalKey (recv_name lib n) = recv_name lib n"
  by (simp add: recv_name_def)

lemma map_of_recv_None:
  assumes "recv_name lib n \<notin> set (map (\<lambda>kv. recv_name lib (fst kv)) h)"
  shows "map_of (recv_header lib h) (toLower lib n) = None"
proof -
  have "toLower lib n \<noteq> recv_name lib m" if "m \<in> fst ` set h" for m
  proof
    assume "toLower lib n = recv_name lib m"
    then have "recv_name lib n = recv_name lib m"
      by (metis recv_name_def canonicalKey_idem)
    with that assms show False by auto
  qed
  then show ?thesis by (force simp: recv_header_def map_of_eq_None_iff)
qed

end
