(* ===== verification/Spdy_Codec.thy ===== *)
theory Spdy_Codec
  imports Spdy_Write Spdy_Read Go_Header
begin

text \<open>
  What the encoder and the decoder agree on: the bytes of a control header and of a header
  block, and that reading gives back what was written.  The frames follow in
  \<open>Spdy_Roundtrip\<close>.
\<close>

section \<open>Writing without faults\<close>

lemma f_send_ok [res_simps]:
  "wr_fault (f_w f) = None \<Longrightarrow>
   f_send bs f = (None, f\<lparr>f_w := (f_w f)\<lparr>wr_out := wr_out (f_w f) @ concat bs\<rparr>\<rparr>)"
  by (simp add: f_send_def write_all_ok)

section \<open>Reading known bytes\<close>

lemma fReadU32_be32 [codec_simps]:
  "f_r f = \<lparr>rd_bytes = be32 v @ b, rd_end = e\<rparr> \<Longrightarrow>
   fReadU32 f = (Inr v, f\<lparr>f_r := \<lparr>rd_bytes = b, rd_end = e\<rparr>\<rparr>)"
  by (simp add: fReadU32_def onConn_def codec_simps)

lemma fReadU8_be8 [codec_simps]:
  "f_r f = \<lparr>rd_bytes = be8 v @ b, rd_end = e\<rparr> \<Longrightarrow>
   fReadU8 f = (Inr v, f\<lparr>f_r := \<lparr>rd_bytes = b, rd_end = e\<rparr>\<rparr>)"
  by (simp add: fReadU8_def onConn_def codec_simps)

section \<open>The control header\<close>

definition ctl_word :: "u16 \<Rightarrow> u16 \<Rightarrow> u32" where
  "ctl_word v t = push_bit 16 (ucast (0x8000 OR v)) OR ucast t"

lemma ctl_word_control: "ctl_word v t AND 0x80000000 \<noteq> 0"
  by (simp add: and_bit31 ctl_word_def bit_simps)

lemma and_ffff: "(w :: u32) AND 0xffff = take_bit 16 w"
  by (simp add: take_bit_eq_mask mask_eq_exp_minus_1)

lemma and_7fff: "(w :: u32) AND 0x7fff = take_bit 15 w"
  by (simp add: take_bit_eq_mask mask_eq_exp_minus_1)

lemma ctl_word_type: "ucast (ctl_word v t AND 0xffff) = t"
  unfolding and_ffff by (rule bit_word_eqI) (auto simp: ctl_word_def bit_simps)

lemma ctl_word_version: "ucast (drop_bit 16 (ctl_word v t) AND 0x7fff) = take_bit 15 v"
proof -
  have "\<not> bit (0x8000 :: u16) n" if "n < 15" for n
    using that bit_exp_iff [of 15 n, where ?'a = "16 word"] by simp
  then show ?thesis
    unfolding and_7fff by (intro bit_word_eqI) (auto simp: ctl_word_def bit_simps bit_word_beyond)
qed

lemma concat_header_chunks:
  "concat (header_chunks h) @ b =
   be32 (ctl_word (cf_version h) (cf_frameType h)) @ be32 (pack24 (cf_Flags h) (cf_length h)) @ b"
  by (simp add: header_chunks_def ctl_word_def be16_be16 [symmetric])

lemma length_header_chunks: "length (concat (header_chunks h)) = 8"
  by (simp add: header_chunks_def)

text \<open>The decoder on a control header the encoder wrote.\<close>

lemma ReadFrame_control:
  assumes "f_r g = \<lparr>rd_bytes = concat (header_chunks h) @ b, rd_end = e\<rparr>"
    and "cf_version h = Version" "take_bit 24 (cf_length h) = cf_length h"
    and "cf_length h \<le> maxControlFramePayload_of g"
    and "cframeCtor lib (cf_frameType h) = Some rd"
  shows "ReadFrame lib g = rd h (g\<lparr>f_r := \<lparr>rd_bytes = b, rd_end = e\<rparr>\<rparr>)"
proof -
  have "maxControlFramePayload_of (g\<lparr>f_r := x\<rparr>) = maxControlFramePayload_of g" for x
    by (simp add: maxControlFramePayload_of_def)
  moreover have "ucast (drop_bit 16 (ctl_word Version t) AND 0x7fff) = Version" for t
    unfolding ctl_word_version by (simp add: Version_def)
  moreover have "\<not> maxControlFramePayload_of g < cf_length h"
    using assms(4) by simp
  ultimately show ?thesis
    using assms
    by (cases h) (simp add: ReadFrame_def parseControlFrame_def concat_header_chunks codec_simps
        ctl_word_control ctl_word_type drop24_and_ff and_low24 pack24_high pack24_low Let_def)
qed

section \<open>Header blocks\<close>

text \<open>The plain bytes of a header block.\<close>

definition header_bytes :: "('c, 'd) golib \<Rightarrow> gostring \<times> gostring list \<Rightarrow> byte list" where
  "header_bytes lib kv =
     (case kv of (name, values) \<Rightarrow>
        be32 (word_of_nat (length name)) @ toLower lib name @
        be32 (word_of_nat (length (joinSep values))) @ joinSep values)"

definition block_bytes :: "('c, 'd) golib \<Rightarrow> http_header \<Rightarrow> byte list" where
  "block_bytes lib h = be32 (word_of_nat (length h)) @ concat (map (header_bytes lib) h)"

lemma header_bytes_pair: "header_bytes lib (n, vs) =
    be32 (word_of_nat (length n)) @ toLower lib n @
    be32 (word_of_nat (length (joinSep vs))) @ joinSep vs"
  by (simp add: header_bytes_def)

text \<open>Names and joined values that fit the 31-bit length check of the encoder.\<close>

definition small_header :: "http_header \<Rightarrow> bool" where
  "small_header h = (length h \<le> MaxInt32 \<and>
     (\<forall>(n, vs) \<in> set h. length n \<le> MaxInt32 \<and> length (joinSep vs) \<le> MaxInt32))"

text \<open>
  The interface of a byte sink, the dual of \<open>byte_source\<close>: \<open>took bs s\<close> says that the
  sink has taken \<open>bs\<close> so far; it takes anything.
\<close>

locale byte_sink =
  fixes wr :: "'s write_fun"
    and took :: "byte list \<Rightarrow> 's \<Rightarrow> bool"
  assumes wr_took: "took a s \<Longrightarrow> \<exists>s'. wr b s = (None, s') \<and> took (a @ b) s'"
begin

lemma wr_tookE:
  assumes "took a s"
  obtains s' where "wr b s = (None, s')" "took (a @ b) s'"
  using wr_took [OF assms] by blast

lemma writeHeaders_took:
  assumes "took a s" and "\<forall>(n, vs) \<in> set h. length n \<le> MaxInt32 \<and> length (joinSep vs) \<le> MaxInt32"
  shows "\<exists>m s'. writeHeaders wr lib k h s = (m, None, s') \<and>
     took (a @ concat (map (header_bytes lib) h)) s'"
  using assms
proof (induction h arbitrary: a s k)
  case Nil
  then show ?case by simp
next
  case (Cons kv h)
  obtain name vals where kv: "kv = (name, vals)" by fastforce
  from Cons.prems obtain s1 where s1: "wr (be32 (word_of_nat (length name))) s = (None, s1)"
    "took (a @ be32 (word_of_nat (length name))) s1" by (blast elim: wr_tookE)
  obtain s2 where s2: "wr (toLower lib name) s1 = (None, s2)"
    "took ((a @ be32 (word_of_nat (length name))) @ toLower lib name) s2"
    using s1(2) by (rule wr_tookE)
  let ?v = "joinSep vals"
  obtain s3 where s3: "wr (be32 (word_of_nat (length ?v))) s2 = (None, s3)"
    "took (((a @ be32 (word_of_nat (length name))) @ toLower lib name) @ be32 (word_of_nat (length ?v))) s3"
    using s2(2) by (rule wr_tookE)
  obtain s4 where s4: "wr ?v s3 = (None, s4)" "took (a @ header_bytes lib kv) s4"
    using wr_tookE [OF s3(2), of ?v] by (auto simp: header_bytes_def kv)
  from Cons.IH [OF s4(2)] Cons.prems(2) s1(1) s2(1) s3(1) s4(1) show ?case
    by (fastforce simp: kv Let_def)
qed

lemma writeHeaderValueBlock_took:
  assumes "took a s" and "small_header h"
  obtains m s' where "writeHeaderValueBlock wr lib h s = (m, None, s')"
    "took (a @ block_bytes lib h) s'"
proof -
  from assms(1) obtain s1 where s1: "wr (be32 (word_of_nat (length h))) s = (None, s1)"
    "took (a @ be32 (word_of_nat (length h))) s1" by (rule wr_tookE)
  have h: "length h \<le> MaxInt32"
    "\<forall>(n, vs) \<in> set h. length n \<le> MaxInt32 \<and> length (joinSep vs) \<le> MaxInt32"
    using assms(2) by (simp_all add: small_header_def)
  from writeHeaders_took [OF s1(2) h(2), of lib 4] obtain m s' where
    "writeHeaders wr lib 4 h s1 = (m, None, s')"
    "took (a @ block_bytes lib h) s'" by (auto simp: block_bytes_def)
  with s1(1) h(1) show thesis by (intro that [of m s']) (simp_all add: writeHeaderValueBlock_def)
qed

end

interpretation buf: byte_sink headerBuf_Write "\<lambda>bs f. f = f0\<lparr>headerBuf := hb @ bs\<rparr>"
  for f0 :: "('c, 'd) framer" and hb
  by unfold_locales (simp add: headerBuf_Write_def)

interpretation wire: byte_sink write_bytes "\<lambda>bs w. wr_fault w = None \<and> wr_out w = out @ bs"
  for out
  by unfold_locales (simp add: write_bytes_def)

text \<open>A source that holds an encoded header block is parsed to the header that was sent.\<close>

context byte_source
begin

lemma parseHeaders_ready:
  assumes "ready (concat (map (header_bytes lib) h) @ b) s"
    and "distinct (map (\<lambda>kv. recv_name lib (fst kv)) (h0 @ h))" "list_all (wf_entry maxField) h"
  shows "\<exists>s'. parseHeaders rf lib maxField sid (length h) (recv_header lib h0) None s =
     (Inr (recv_header lib (h0 @ h), None), s') \<and> ready b s'"
  using assms
proof (induction h arbitrary: h0 s)
  case Nil
  then show ?case by simp
next
  case (Cons kv h)
  obtain n vs where kv: "kv = (n, vs)" by fastforce
  let ?rest = "concat (map (header_bytes lib) h) @ b"
  from Cons.prems(3) kv have wf: "is_ascii n" "vs \<noteq> []" "\<forall>v\<in>set vs. headerValueSeparator \<notin> set v"
    "length n \<le> unat maxField" "length (joinSep vs) \<le> unat maxField"
    by (auto simp: wf_entry_def)
  have "ready (be32 (word_of_nat (length n)) @ toLower lib n @
      be32 (word_of_nat (length (joinSep vs))) @ joinSep vs @ ?rest) s"
    using Cons.prems(1) by (simp add: kv header_bytes_pair)
  then obtain s1 where s1: "readU32 rf s = (Inr (word_of_nat (length n)), s1)"
    "ready (toLower lib n @ be32 (word_of_nat (length (joinSep vs))) @ joinSep vs @ ?rest) s1"
    by (rule readU32_ready)
  from s1(2) obtain s2 where s2: "rf (length n) s1 = (Inr (toLower lib n), s2)"
    "ready (be32 (word_of_nat (length (joinSep vs))) @ joinSep vs @ ?rest) s2"
    by (rule rf_readyE) (simp add: length_toLower wf(1))
  from s2(2) obtain s3 where s3: "readU32 rf s2 = (Inr (word_of_nat (length (joinSep vs))), s3)"
    "ready (joinSep vs @ ?rest) s3" by (rule readU32_ready)
  from s3(2) obtain s4 where s4: "rf (length (joinSep vs)) s3 = (Inr (joinSep vs), s4)"
    "ready ?rest s4" by (rule rf_readyE) simp
  have new: "recv_name lib n \<notin> set (map (\<lambda>kv. recv_name lib (fst kv)) h0)"
    using Cons.prems(2) by (auto simp: kv)
  have "canonicalKey (toLower lib n) \<notin> fst ` set (recv_header lib h0)"
    using new by (force simp: recv_header_def recv_name_def)
  then have add: "header_AddAll (recv_header lib h0) (toLower lib n) (splitSep (joinSep vs)) =
      recv_header lib (h0 @ [kv])"
    using wf(2,3) by (simp add: header_AddAll_new splitSep_joinSep kv recv_header_def recv_name_def)
  have "distinct (map (\<lambda>kv. recv_name lib (fst kv)) ((h0 @ [kv]) @ h))" "list_all (wf_entry maxField) h"
    using Cons.prems(2,3) by auto
  from Cons.IH [OF s4(2) this] obtain s' where
    "parseHeaders rf lib maxField sid (length h) (recv_header lib (h0 @ [kv])) None s4 =
       (Inr (recv_header lib ((h0 @ [kv]) @ h), None), s')" "ready b s'" by blast
  then show ?case
    using s1(1) s2(1) s3(1) s4(1) word_of_nat_le_unat [OF wf(4)] word_of_nat_le_unat [OF wf(5)] map_of_recv_None [OF new]
    by (simp add: toLower_idem wf(1) add Let_def)
qed

lemma parseHeaderValueBlock_ready:
  assumes "ready (block_bytes lib h @ b) s"
    and "wf_header lib (maxHeaders_of f) (maxFieldSize_of f) h"
  obtains s' where "parseHeaderValueBlock f rf lib sid s = (Inr (recv_header lib h), s')" "ready b s'"
proof -
  have wf: "distinct (map (\<lambda>kv. recv_name lib (fst kv)) ([] @ h))"
    "list_all (wf_entry (maxFieldSize_of f)) h" "length h \<le> unat (maxHeaders_of f)"
    using assms(2) by (auto simp: wf_header_def)
  from assms(1) have "ready (be32 (word_of_nat (length h)) @ concat (map (header_bytes lib) h) @ b) s"
    by (simp add: block_bytes_def)
  then obtain s1 where s1: "readU32 rf s = (Inr (word_of_nat (length h)), s1)"
    "ready (concat (map (header_bytes lib) h) @ b) s1" by (rule readU32_ready)
  from parseHeaders_ready [OF s1(2) wf(1,2)] obtain s' where
    "parseHeaders rf lib (maxFieldSize_of f) sid (length h) (recv_header lib []) None s1 =
       (Inr (recv_header lib h, None), s')" "ready b s'" by auto
  then show thesis using s1(1) word_of_nat_le_unat [OF wf(3)]
    by (intro that [of s']) (simp_all add: parseHeaderValueBlock_def recv_header_def)
qed

end
end
