(* ===== verification/Zlib_Contract.thy ===== *)
theory Zlib_Contract
  imports Spdy_Codec
begin

text \<open>
  The contract of the zlib streams the codec relies on, and what follows from it: a header
  block goes through the encoder's marshalling and the decoder's header reader unchanged, with
  compression on or off, and leaves the two ends in step.
\<close>

lemma limits_upd [simp]:
  "maxHeaders_of (g\<lparr>f_r := a\<rparr>) = maxHeaders_of g"
  "maxHeaders_of (g\<lparr>headerReader_N := n\<rparr>) = maxHeaders_of g"
  "maxHeaders_of (g\<lparr>headerDecompressor := d\<rparr>) = maxHeaders_of g"
  "maxFieldSize_of (g\<lparr>f_r := a\<rparr>) = maxFieldSize_of g"
  "maxFieldSize_of (g\<lparr>headerReader_N := n\<rparr>) = maxFieldSize_of g"
  "maxFieldSize_of (g\<lparr>headerDecompressor := d\<rparr>) = maxFieldSize_of g"
  by (simp_all add: maxHeaders_of_def maxFieldSize_of_def)

lemma parse_upd [simp]:
  "parseHeaderValueBlock (g\<lparr>f_r := a\<rparr>) rf lib sid s = parseHeaderValueBlock g rf lib sid s"
  "parseHeaderValueBlock (g\<lparr>headerReader_N := n\<rparr>) rf lib sid s = parseHeaderValueBlock g rf lib sid s"
  "parseHeaderValueBlock (g\<lparr>headerDecompressor := d\<rparr>) rf lib sid s = parseHeaderValueBlock g rf lib sid s"
  by (simp_all add: parseHeaderValueBlock_def cong: if_cong)

text \<open>
  The contract of the zlib streams, in terms of two relations.  \<open>zc od pt p c\<close>: the
  compressor \<open>c\<close>, whose peer's decompressor is \<open>od\<close>, has since its last flush taken
  the plain bytes \<open>pt\<close> and put out \<open>p\<close>.  \<open>zd c pt r s\<close>: the decompressor with
  its limited reader \<open>s\<close> is about to deliver \<open>pt\<close>, will then have left the
  connection at \<open>r\<close>, and will be in step with \<open>c\<close>.
\<close>

type_synonym ('c, 'd) zc_rel = "'d option \<Rightarrow> byte list \<Rightarrow> byte list \<Rightarrow> 'c \<Rightarrow> bool"
type_synonym ('c, 'd) zd_rel = "'c \<Rightarrow> byte list \<Rightarrow> reader \<Rightarrow> 'd \<times> limited_reader \<Rightarrow> bool"

text \<open>
  The payload \<open>p\<close>, put in front of what the connection \<open>r\<close> still holds, inflates to
  \<open>pt\<close>: by the decompressor there is, or by a new one.
\<close>

definition inflates ::
  "('c, 'd) golib \<Rightarrow> ('c, 'd) zd_rel \<Rightarrow> 'd option \<Rightarrow> 'c \<Rightarrow> byte list \<Rightarrow> byte list \<Rightarrow> reader \<Rightarrow> bool" where
  "inflates lib zd od c pt p r =
     (let lr = (r\<lparr>rd_bytes := p @ rd_bytes r\<rparr>, length p)
      in case od of
           Some d \<Rightarrow> zd c pt r (d, lr)
         | None \<Rightarrow> \<exists>d lr'. zr_new lib headerDictionary lr = (Inr d, lr') \<and> zd c pt r (d, lr'))"

definition zlib_new_law :: "('c, 'd) golib \<Rightarrow> ('c, 'd) zc_rel \<Rightarrow> bool" where
  "zlib_new_law lib zc = (\<exists>c. zw_new lib headerDictionary = Inr c \<and> zc None [] [] c)"

definition zlib_write_law :: "('c, 'd) golib \<Rightarrow> ('c, 'd) zc_rel \<Rightarrow> bool" where
  "zlib_write_law lib zc = (\<forall>od pt p c b. zc od pt p c \<longrightarrow>
     (\<exists>c' out. zw_write lib b c = (None, c', out) \<and> zc od (pt @ b) (p @ out) c'))"

definition zlib_flush_law :: "('c, 'd) golib \<Rightarrow> ('c, 'd) zc_rel \<Rightarrow> ('c, 'd) zd_rel \<Rightarrow> bool" where
  "zlib_flush_law lib zc zd = (\<forall>od pt p c. zc od pt p c \<longrightarrow>
     (\<exists>c' out. zw_flush lib c = (c', out) \<and> (\<forall>r. inflates lib zd od c' pt (p @ out) r)))"

definition zlib_read_law :: "('c, 'd) golib \<Rightarrow> ('c, 'd) zd_rel \<Rightarrow> bool" where
  "zlib_read_law lib zd = (\<forall>c a b r s. zd c (a @ b) r s \<longrightarrow>
     (\<exists>s'. zr_readFull lib (length a) s = (Inr a, s') \<and> zd c b r s'))"

definition zlib_done_law :: "('c, 'd) zc_rel \<Rightarrow> ('c, 'd) zd_rel \<Rightarrow> bool" where
  "zlib_done_law zc zd = (\<forall>c r d r' n. zd c [] r (d, r', n) \<longrightarrow>
     r' = r \<and> n = 0 \<and> zc (Some d) [] [] c)"

definition zlib_spec :: "('c, 'd) golib \<Rightarrow> ('c, 'd) zc_rel \<Rightarrow> ('c, 'd) zd_rel \<Rightarrow> bool" where
  "zlib_spec lib zc zd = (zlib_new_law lib zc \<and> zlib_write_law lib zc \<and> zlib_flush_law lib zc zd \<and>
     zlib_read_law lib zd \<and> zlib_done_law zc zd)"

lemma zlib_source: "zlib_spec lib zc zd \<Longrightarrow> byte_source (zr_readFull lib) (\<lambda>pt. zd c pt r)"
  unfolding byte_source_def zlib_spec_def zlib_read_law_def by simp

lemma zlib_sink:
  assumes "zlib_spec lib zc zd"
  shows "byte_sink (headerCompressor_Write lib)
     (\<lambda>pt f. \<exists>p c. f = f0\<lparr>headerCompressor := c, headerBuf := p\<rparr> \<and> zc od pt p c)"
proof
  fix a s b
  assume "\<exists>p c. s = f0\<lparr>headerCompressor := c, headerBuf := p\<rparr> \<and> zc od a p c"
  then obtain p c where s: "s = f0\<lparr>headerCompressor := c, headerBuf := p\<rparr>" "zc od a p c" by blast
  from assms s(2) obtain c' out where "zw_write lib b c = (None, c', out)" "zc od (a @ b) (p @ out) c'"
    unfolding zlib_spec_def zlib_write_law_def by blast
  with s(1) show "\<exists>s'. headerCompressor_Write lib b s = (None, s') \<and>
     (\<exists>p c. s' = f0\<lparr>headerCompressor := c, headerBuf := p\<rparr> \<and> zc od (a @ b) p c)"
    by (auto simp: headerCompressor_Write_def)
qed

text \<open>A writing and a reading framer in sync between two frames.\<close>

definition in_sync ::
  "('d option \<Rightarrow> byte list \<Rightarrow> byte list \<Rightarrow> 'c \<Rightarrow> bool) \<Rightarrow> ('c, 'd) framer \<Rightarrow> ('c, 'd) framer \<Rightarrow> bool" where
  "in_sync zc f g \<longleftrightarrow> headerBuf f = [] \<and>
     headerCompressionDisabled f = headerCompressionDisabled g \<and>
     (headerCompressionDisabled f \<or> zc (headerDecompressor g) [] [] (headerCompressor f))"

definition same_limits :: "('c, 'd) framer \<Rightarrow> ('c, 'd) framer \<Rightarrow> bool" where
  "same_limits g g' \<longleftrightarrow> maxFrameLength g' = maxFrameLength g \<and>
     maxHeaderFieldSize g' = maxHeaderFieldSize g \<and> maxHeaderCount g' = maxHeaderCount g"

definition header_ok :: "('c, 'd) golib \<Rightarrow> ('c, 'd) framer \<Rightarrow> http_header \<Rightarrow> bool" where
  "header_ok lib g h \<longleftrightarrow> small_header h \<and> wf_header lib (maxHeaders_of g) (maxFieldSize_of g) h"

text \<open>What the sender marshals is what the receiver's header block reader gives back.\<close>

lemma marshal_plain:
  assumes "headerCompressionDisabled f" "headerBuf f = []" "small_header h"
  shows "marshalHeaders lib h f = (None, f\<lparr>headerBuf := block_bytes lib h\<rparr>)"
proof -
  have "f = f\<lparr>headerBuf := [] @ []\<rparr>" using assms(2) by simp
  then obtain m s' where "writeHeaderValueBlock headerBuf_Write lib h f = (m, None, s')"
    "s' = f\<lparr>headerBuf := [] @ [] @ block_bytes lib h\<rparr>"
    using assms(3) by (rule buf.writeHeaderValueBlock_took) auto
  then show ?thesis using assms(1) by (simp add: marshalHeaders_def)
qed

lemma readHeaderBlock_plain:
  assumes "headerCompressionDisabled g" "wf_header lib (maxHeaders_of g) (maxFieldSize_of g) h"
    and "f_r g = \<lparr>rd_bytes = block_bytes lib h @ b, rd_end = e\<rparr>"
  shows "readHeaderBlock lib n sid g = (Inr (recv_header lib h), g\<lparr>f_r := \<lparr>rd_bytes = b, rd_end = e\<rparr>\<rparr>)"
proof -
  have "f_r g = \<lparr>rd_bytes = (block_bytes lib h @ []) @ b, rd_end = e\<rparr>" using assms(3) by simp
  then obtain s' where "parseHeaderValueBlock g readFull lib sid (f_r g) = (Inr (recv_header lib h), s')"
    "s' = \<lparr>rd_bytes = [] @ b, rd_end = e\<rparr>"
    using assms(2) by (rule conn.parseHeaderValueBlock_ready)
  then show ?thesis using assms(1) by (simp add: readHeaderBlock_def onConn_def)
qed

lemma marshal_zlib:
  assumes "zlib_spec lib zc zd" "\<not> headerCompressionDisabled f" "headerBuf f = []"
    and "zc od [] [] (headerCompressor f)" "small_header h"
  obtains c p where
    "marshalHeaders lib h f = (None, f\<lparr>headerCompressor := c, headerBuf := p\<rparr>)"
    "\<And>r. inflates lib zd od c (block_bytes lib h) p r"
proof -
  have f: "\<exists>p c. f = f\<lparr>headerCompressor := c, headerBuf := p\<rparr> \<and> zc od [] p c"
    using assms(3,4) by (intro exI [of _ "[]"] exI [of _ "headerCompressor f"]) simp
  obtain m s' where wr: "writeHeaderValueBlock (headerCompressor_Write lib) lib h f = (m, None, s')"
    and "\<exists>p c. s' = f\<lparr>headerCompressor := c, headerBuf := p\<rparr> \<and> zc od ([] @ block_bytes lib h) p c"
    using byte_sink.writeHeaderValueBlock_took [OF zlib_sink [OF assms(1)] f assms(5)] by blast
  then obtain p1 c1 where s': "s' = f\<lparr>headerCompressor := c1, headerBuf := p1\<rparr>"
    and zc: "zc od (block_bytes lib h) p1 c1" by auto
  from assms(1) zc obtain c out where fl: "zw_flush lib c1 = (c, out)"
    and zd: "\<And>r. inflates lib zd od c (block_bytes lib h) (p1 @ out) r"
    unfolding zlib_spec_def zlib_flush_law_def by blast
  have "marshalHeaders lib h f = (None, f\<lparr>headerCompressor := c, headerBuf := p1 @ out\<rparr>)"
    using wr s' fl assms(2) by (simp add: marshalHeaders_def headerCompressor_Flush_def)
  then show thesis using zd by (rule that)
qed

lemma readHeaderBlock_zlib:
  assumes z: "zlib_spec lib zc zd" "\<not> headerCompressionDisabled g"
    and wf: "wf_header lib (maxHeaders_of g) (maxFieldSize_of g) h"
    and zd: "inflates lib zd (headerDecompressor g) c (block_bytes lib h) p r"
    and g: "f_r g = r\<lparr>rd_bytes := p @ rd_bytes r\<rparr>" and n: "unat n = length p"
  obtains d where "readHeaderBlock lib n sid g = (Inr (recv_header lib h),
      g\<lparr>headerDecompressor := Some d, f_r := r, headerReader_N := 0\<rparr>)"
    "zc (Some d) [] [] c"
proof -
  obtain d0 r0 n0 where un: "uncorkHeaderDecompressor lib (unat n) g =
      (Inr d0, g\<lparr>f_r := r0, headerReader_N := n0, headerDecompressor := Some d0\<rparr>)"
    and s0: "zd c (block_bytes lib h @ []) r (d0, r0, n0)"
    using zd g n by (cases "headerDecompressor g")
      (auto simp: inflates_def uncorkHeaderDecompressor_def Let_def intro!: that)
  from byte_source.parseHeaderValueBlock_ready [OF zlib_source [OF z(1)] s0 wf, of sid]
  obtain s' where ps: "parseHeaderValueBlock g (zr_readFull lib) lib sid (d0, r0, n0) =
      (Inr (recv_header lib h), s')" "zd c [] r s'" by blast
  obtain d r' n' where s': "s' = (d, r', n')" by (cases s') auto
  from z(1) ps(2) s' have "r' = r" "n' = 0" "zc (Some d) [] [] c"
    unfolding zlib_spec_def zlib_done_law_def by blast+
  then show thesis using z(2) un ps(1) s'
    by (intro that [of d]) (simp_all add: readHeaderBlock_def)
qed

lemma in_sync_upd [simp]:
  "in_sync zc (f\<lparr>f_w := w\<rparr>) g = in_sync zc f g"
  "in_sync zc f (g\<lparr>f_r := r\<rparr>) = in_sync zc f g"
  by (simp_all add: in_sync_def)

lemma same_limits_refl [simp]: "same_limits g g"
  by (simp add: same_limits_def)

lemma same_limits_upd [simp]:
  "same_limits g (g'\<lparr>f_r := r\<rparr>) = same_limits g g'"
  "same_limits g (g'\<lparr>headerReader_N := n\<rparr>) = same_limits g g'"
  "same_limits g (g'\<lparr>headerDecompressor := d\<rparr>) = same_limits g g'"
  by (simp_all add: same_limits_def)

definition codec_ok :: "('c, 'd) golib \<Rightarrow> ('c, 'd) zc_rel \<Rightarrow> ('c, 'd) zd_rel \<Rightarrow> ('c, 'd) framer \<Rightarrow> bool" where
  "codec_ok lib zc zd f = (headerCompressionDisabled f \<or> zlib_spec lib zc zd)"

text \<open>
  The marshalled block in \<open>f1\<close>'s buffer comes out of the receiver \<open>g\<close> as the header
  that went in, and the two ends are in step again.
\<close>

definition block_survives ::
  "('c, 'd) golib \<Rightarrow> ('c, 'd) zc_rel \<Rightarrow> ('c, 'd) framer \<Rightarrow> ('c, 'd) framer \<Rightarrow> http_header \<Rightarrow> bool" where
  "block_survives lib zc g f1 h \<longleftrightarrow> (\<forall>r n sid. unat n = length (headerBuf f1) \<longrightarrow>
     (\<exists>g2. readHeaderBlock lib n sid (g\<lparr>f_r := r\<lparr>rd_bytes := headerBuf f1 @ rd_bytes r\<rparr>\<rparr>) =
         (Inr (recv_header lib h), g2) \<and> f_r g2 = r \<and> same_limits g g2 \<and>
         in_sync zc (f1\<lparr>headerBuf := []\<rparr>) g2))"

lemma block_survivesE:
  assumes "block_survives lib zc g f1 h" "unat n = length (headerBuf f1)"
  obtains g2 where "readHeaderBlock lib n sid (g\<lparr>f_r := \<lparr>rd_bytes = headerBuf f1 @ b, rd_end = e\<rparr>\<rparr>) =
      (Inr (recv_header lib h), g2)"
    "f_r g2 = \<lparr>rd_bytes = b, rd_end = e\<rparr>" "same_limits g g2" "in_sync zc (f1\<lparr>headerBuf := []\<rparr>) g2"
proof -
  let ?r = "\<lparr>rd_bytes = b, rd_end = e\<rparr>"
  from assms obtain g2 where
    "readHeaderBlock lib n sid (g\<lparr>f_r := ?r\<lparr>rd_bytes := headerBuf f1 @ rd_bytes ?r\<rparr>\<rparr>) =
       (Inr (recv_header lib h), g2)"
    "f_r g2 = ?r" "same_limits g g2" "in_sync zc (f1\<lparr>headerBuf := []\<rparr>) g2"
    unfolding block_survives_def by blast
  then show thesis by (intro that [of g2]) simp_all
qed

lemma marshal_in_sync:
  assumes "codec_ok lib zc zd f" "in_sync zc f g" "header_ok lib g h"
  obtains f1 where "marshalHeaders lib h f = (None, f1)" "f_w f1 = f_w f" "block_survives lib zc g f1 h"
proof (cases "headerCompressionDisabled f")
  case True
  with assms have buf: "headerBuf f = []" "headerCompressionDisabled g" "small_header h"
    and wf: "wf_header lib (maxHeaders_of g) (maxFieldSize_of g) h"
    by (simp_all add: in_sync_def header_ok_def)
  let ?f1 = "f\<lparr>headerBuf := block_bytes lib h\<rparr>"
  have "readHeaderBlock lib n sid (g\<lparr>f_r := r\<lparr>rd_bytes := block_bytes lib h @ rd_bytes r\<rparr>\<rparr>) =
      (Inr (recv_header lib h), g\<lparr>f_r := r\<rparr>)" for r n sid
    using buf(2) wf
    by (cases r) (simp add: readHeaderBlock_plain [where b = "rd_bytes r" and e = "rd_end r"])
  then have "block_survives lib zc g ?f1 h"
    using assms(2) True buf(1,2) by (auto simp: block_survives_def in_sync_def)
  then show thesis using marshal_plain [OF True buf(1,3), of lib] by (intro that [of ?f1]) simp_all
next
  case False
  let ?od = "headerDecompressor g"
  from False assms have z: "zlib_spec lib zc zd" "headerBuf f = []" "\<not> headerCompressionDisabled g"
      "zc ?od [] [] (headerCompressor f)" "small_header h"
    and wf: "wf_header lib (maxHeaders_of g) (maxFieldSize_of g) h"
    by (simp_all add: in_sync_def header_ok_def codec_ok_def)
  obtain c p where m: "marshalHeaders lib h f = (None, f\<lparr>headerCompressor := c, headerBuf := p\<rparr>)"
    and inf: "\<And>r. inflates lib zd ?od c (block_bytes lib h) p r"
    using marshal_zlib [OF z(1) False z(2,4,5)] by blast
  let ?f1 = "f\<lparr>headerCompressor := c, headerBuf := p\<rparr>"
  have "\<exists>g2. readHeaderBlock lib n sid (g\<lparr>f_r := r\<lparr>rd_bytes := p @ rd_bytes r\<rparr>\<rparr>) =
         (Inr (recv_header lib h), g2) \<and> f_r g2 = r \<and> same_limits g g2 \<and>
         in_sync zc (?f1\<lparr>headerBuf := []\<rparr>) g2"
    if n: "unat n = length p" for r n sid
  proof -
    let ?g = "g\<lparr>f_r := r\<lparr>rd_bytes := p @ rd_bytes r\<rparr>\<rparr>"
    have "\<not> headerCompressionDisabled ?g" "wf_header lib (maxHeaders_of ?g) (maxFieldSize_of ?g) h"
      "inflates lib zd (headerDecompressor ?g) c (block_bytes lib h) p r"
      "f_r ?g = r\<lparr>rd_bytes := p @ rd_bytes r\<rparr>"
      using z(3) wf inf by simp_all
    from readHeaderBlock_zlib [OF z(1) this n] obtain d where
      "readHeaderBlock lib n sid ?g = (Inr (recv_header lib h),
        ?g\<lparr>headerDecompressor := Some d, f_r := r, headerReader_N := 0\<rparr>)" "zc (Some d) [] [] c"
      by blast
    then show ?thesis using False z(3) by (simp add: in_sync_def)
  qed
  then have "block_survives lib zc g ?f1 h" by (simp add: block_survives_def)
  then show thesis using m by (intro that [of ?f1]) simp_all
qed

end
