(* ===== verification/Spdy_Roundtrip.thy ===== *)
theory Spdy_Roundtrip
  imports Zlib_Contract
begin

text \<open>
  Round trips of whole frames: what \<open>WriteFrame\<close> puts on the wire, \<open>ReadFrame\<close> of a
  framer in step with the writer reads back, and takes no byte more.
\<close>

section \<open>Frames\<close>

definition recv_frame :: "('c, 'd) golib \<Rightarrow> frame \<Rightarrow> frame" where
  "recv_frame lib fr = (case fr of
     SynStream x \<Rightarrow> SynStream (x\<lparr>ss_Headers := recv_header lib (ss_Headers x)\<rparr>)
   | SynReply x \<Rightarrow> SynReply (x\<lparr>sr_Headers := recv_header lib (sr_Headers x)\<rparr>)
   | Headers x \<Rightarrow> Headers (x\<lparr>hd_Headers := recv_header lib (hd_Headers x)\<rparr>)
   | _ \<Rightarrow> fr)"

text \<open>Frames that survive the trip to the receiver \<open>g\<close>.\<close>

definition frame_ok :: "('c, 'd) golib \<Rightarrow> ('c, 'd) framer \<Rightarrow> frame \<Rightarrow> bool" where
  "frame_ok lib g fr = (case fr of
     SynStream x \<Rightarrow> ss_Priority x < 8 \<and> header_ok lib g (ss_Headers x) \<and>
       \<not> has_invalid invalidReqHeaders (recv_header lib (ss_Headers x))
   | SynReply x \<Rightarrow> header_ok lib g (sr_Headers x) \<and>
       \<not> has_invalid invalidRespHeaders (recv_header lib (sr_Headers x))
   | Headers x \<Rightarrow> header_ok lib g (hd_Headers x) \<and>
       \<not> has_invalid (if hd_StreamId x mod 2 = 0 then invalidReqHeaders else invalidRespHeaders)
           (recv_header lib (hd_Headers x))
   | Settings x \<Rightarrow> list_all (\<lambda>v. take_bit 24 (sv_Id v) = sv_Id v) (st_FlagIdValues x)
   | _ \<Rightarrow> True)"

definition frame_header :: "frame \<Rightarrow> control_frame_header option" where
  "frame_header fr = (case fr of
     SynStream x \<Rightarrow> Some (ss_CFHeader x)
   | SynReply x \<Rightarrow> Some (sr_CFHeader x)
   | RstStream x \<Rightarrow> Some (rs_CFHeader x)
   | Settings x \<Rightarrow> Some (st_CFHeader x)
   | Ping x \<Rightarrow> Some (pg_CFHeader x)
   | GoAway x \<Rightarrow> Some (ga_CFHeader x)
   | Headers x \<Rightarrow> Some (hd_CFHeader x)
   | WindowUpdate x \<Rightarrow> Some (wu_CFHeader x)
   | Data x \<Rightarrow> None)"

definition within_limit :: "('c, 'd) framer \<Rightarrow> frame \<Rightarrow> bool" where
  "within_limit g fr = (case frame_header fr of None \<Rightarrow> True | Some h \<Rightarrow> cf_length h \<le> maxControlFramePayload_of g)"

text \<open>
  \<open>delivers\<close>: the encoder went from \<open>f\<close> to \<open>f'\<close> and put out bytes from which the
  receiver \<open>g\<close>, whatever follows them on the connection, reads \<open>fr\<close>, no byte more,
  and then is in step with \<open>f'\<close>.
\<close>

definition delivers ::
  "('c, 'd) golib \<Rightarrow> ('c, 'd) zc_rel \<Rightarrow> ('c, 'd) framer \<Rightarrow> ('c, 'd) framer \<Rightarrow> ('c, 'd) framer \<Rightarrow> frame \<Rightarrow> bool" where
  "delivers lib zc g f f' fr \<longleftrightarrow> (\<exists>enc. f_w f' = (f_w f)\<lparr>wr_out := wr_out (f_w f) @ enc\<rparr> \<and>
     (\<forall>r. \<exists>g'. ReadFrame lib (g\<lparr>f_r := r\<lparr>rd_bytes := enc @ rd_bytes r\<rparr>\<rparr>) = (Inr fr, g') \<and>
        f_r g' = r \<and> same_limits g g' \<and> in_sync zc f' g'))"

lemma deliversI:
  assumes "f_w f' = (f_w f)\<lparr>wr_out := wr_out (f_w f) @ enc\<rparr>"
    and "\<And>b e. \<exists>g'. ReadFrame lib (g\<lparr>f_r := \<lparr>rd_bytes = enc @ b, rd_end = e\<rparr>\<rparr>) = (Inr fr, g') \<and>
        f_r g' = \<lparr>rd_bytes = b, rd_end = e\<rparr> \<and> same_limits g g' \<and> in_sync zc f' g'"
  shows "delivers lib zc g f f' fr"
proof -
  have "\<exists>g'. ReadFrame lib (g\<lparr>f_r := r\<lparr>rd_bytes := enc @ rd_bytes r\<rparr>\<rparr>) = (Inr fr, g') \<and>
        f_r g' = r \<and> same_limits g g' \<and> in_sync zc f' g'" for r
    using assms(2) [of "rd_bytes r" "rd_end r"] by (cases r) simp
  with assms(1) show ?thesis by (auto simp: delivers_def)
qed

lemmas ctor_simps = cframeCtor_def frame_type_defs

lemma max_upd [simp]: "maxControlFramePayload_of (g\<lparr>f_r := r\<rparr>) = maxControlFramePayload_of g"
  by (simp add: maxControlFramePayload_of_def)

text \<open>Fixed-layout control frames: what is read after the header.\<close>

lemma delivers_control:
  assumes "f_w f' = (f_w f)\<lparr>wr_out := wr_out (f_w f) @ concat (header_chunks h) @ body\<rparr>"
    and "cf_version h = Version" "take_bit 24 (cf_length h) = cf_length h"
    and "cf_length h \<le> maxControlFramePayload_of g"
    and "cframeCtor lib (cf_frameType h) = Some rd"
    and "\<And>b e. \<exists>g'. rd h (g\<lparr>f_r := \<lparr>rd_bytes = body @ b, rd_end = e\<rparr>\<rparr>) = (Inr fr, g') \<and>
        f_r g' = \<lparr>rd_bytes = b, rd_end = e\<rparr> \<and> same_limits g g' \<and> in_sync zc f' g'"
  shows "delivers lib zc g f f' fr"
  using assms(1)
proof (rule deliversI)
  fix b e
  let ?g = "g\<lparr>f_r := \<lparr>rd_bytes = (concat (header_chunks h) @ body) @ b, rd_end = e\<rparr>\<rparr>"
  have "ReadFrame lib ?g = rd h (?g\<lparr>f_r := \<lparr>rd_bytes = body @ b, rd_end = e\<rparr>\<rparr>)"
    using assms(2-5) by (intro ReadFrame_control) simp_all
  then show "\<exists>g'. ReadFrame lib ?g = (Inr fr, g') \<and>
      f_r g' = \<lparr>rd_bytes = b, rd_end = e\<rparr> \<and> same_limits g g' \<and> in_sync zc f' g'"
    using assms(6) [of b e] by simp
qed

lemma delivers_Ping:
  assumes "in_sync zc f g" "wr_fault (f_w f) = None" "write_Ping f fr = (None, f', fr')"
    "within_limit g (Ping fr')"
  shows "delivers lib zc g f f' (Ping fr')"
proof -
  from assms(2,3) have w: "pg_Id fr \<noteq> 0"
    "f' = f\<lparr>f_w := (f_w f)\<lparr>wr_out := wr_out (f_w f) @ concat (header_chunks (pg_CFHeader fr')) @ be32 (pg_Id fr')\<rparr>\<rparr>"
    "fr' = fr\<lparr>pg_CFHeader := \<lparr>cf_version = Version, cf_frameType = TypePing, cf_Flags = 0, cf_length = 4\<rparr>\<rparr>"
    by (auto simp: write_Ping_def res_simps Let_def split: if_splits)
  show ?thesis
    by (rule delivers_control [where h = "pg_CFHeader fr'" and body = "be32 (pg_Id fr')"])
      (use assms w in \<open>auto simp: ctor_simps within_limit_def frame_header_def read_Ping_def codec_simps\<close>)
qed

lemma delivers_RstStream:
  assumes "in_sync zc f g" "wr_fault (f_w f) = None" "write_RstStream f fr = (None, f', fr')"
    "within_limit g (RstStream fr')"
  shows "delivers lib zc g f f' (RstStream fr')"
proof -
  from assms(2,3) have w: "rs_StreamId fr \<noteq> 0" "rs_Status fr \<noteq> 0"
    "f' = f\<lparr>f_w := (f_w f)\<lparr>wr_out := wr_out (f_w f) @ concat (header_chunks (rs_CFHeader fr')) @
       be32 (rs_StreamId fr) @ be32 (rs_Status fr)\<rparr>\<rparr>"
    "fr' = fr\<lparr>rs_CFHeader := \<lparr>cf_version = Version, cf_frameType = TypeRstStream, cf_Flags = 0, cf_length = 8\<rparr>\<rparr>"
    by (auto simp: write_RstStream_def res_simps Let_def split: if_splits)
  show ?thesis
    by (rule delivers_control [where h = "rs_CFHeader fr'" and body = "be32 (rs_StreamId fr') @ be32 (rs_Status fr')"])
      (use assms w in \<open>auto simp: ctor_simps within_limit_def frame_header_def read_RstStream_def codec_simps\<close>)
qed

lemma delivers_GoAway:
  assumes "in_sync zc f g" "wr_fault (f_w f) = None" "write_GoAway f fr = (None, f', fr')"
    "within_limit g (GoAway fr')"
  shows "delivers lib zc g f f' (GoAway fr')"
proof -
  from assms(2,3) have w:
    "f' = f\<lparr>f_w := (f_w f)\<lparr>wr_out := wr_out (f_w f) @ concat (header_chunks (ga_CFHeader fr')) @
       be32 (ga_LastGoodStreamId fr) @ be32 (ga_Status fr)\<rparr>\<rparr>"
    "fr' = fr\<lparr>ga_CFHeader := \<lparr>cf_version = Version, cf_frameType = TypeGoAway, cf_Flags = 0, cf_length = 8\<rparr>\<rparr>"
    by (auto simp: write_GoAway_def res_simps Let_def split: if_splits)
  show ?thesis
    by (rule delivers_control [where h = "ga_CFHeader fr'"
          and body = "be32 (ga_LastGoodStreamId fr') @ be32 (ga_Status fr')"])
      (use assms w in \<open>auto simp: ctor_simps within_limit_def frame_header_def read_GoAway_def codec_simps\<close>)
qed

lemma delivers_WindowUpdate:
  assumes "in_sync zc f g" "wr_fault (f_w f) = None" "write_WindowUpdate f fr = (None, f', fr')"
    "within_limit g (WindowUpdate fr')"
  shows "delivers lib zc g f f' (WindowUpdate fr')"
proof -
  from assms(2,3) have w:
    "f' = f\<lparr>f_w := (f_w f)\<lparr>wr_out := wr_out (f_w f) @ concat (header_chunks (wu_CFHeader fr')) @
       be32 (wu_StreamId fr) @ be32 (wu_DeltaWindowSize fr)\<rparr>\<rparr>"
    "fr' = fr\<lparr>wu_CFHeader := \<lparr>cf_version = Version, cf_frameType = TypeWindowUpdate, cf_Flags = 0, cf_length = 8\<rparr>\<rparr>"
    by (auto simp: write_WindowUpdate_def res_simps Let_def split: if_splits)
  show ?thesis
    by (rule delivers_control [where h = "wu_CFHeader fr'"
          and body = "be32 (wu_StreamId fr') @ be32 (wu_DeltaWindowSize fr')"])
      (use assms w in \<open>auto simp: ctor_simps within_limit_def frame_header_def read_WindowUpdate_def codec_simps\<close>)
qed

lemma concat_setting_chunks:
  "concat (setting_chunks v) = be32 (pack24 (sv_Flag v) (sv_Id v)) @ be32 (sv_Value v)"
  by (simp add: setting_chunks_def)

lemma small_length:
  "k \<le> MaxDataLength \<Longrightarrow> unat (word_of_nat k :: u32) = k"
  "k \<le> MaxDataLength \<Longrightarrow> take_bit 24 (word_of_nat k :: u32) = word_of_nat k"
  by (simp_all add: MaxDataLength_def unat_word_of_nat_small take_bit24_small)

lemma read_settings_chunks:
  assumes "list_all (\<lambda>v. take_bit 24 (sv_Id v) = sv_Id v) vs"
    and "f_r g = \<lparr>rd_bytes = concat (concat (map setting_chunks vs)) @ b, rd_end = e\<rparr>"
  shows "read_settings (length vs) g = (Inr vs, g\<lparr>f_r := \<lparr>rd_bytes = b, rd_end = e\<rparr>\<rparr>)"
  using assms
proof (induction vs arbitrary: g)
  case Nil
  then show ?case by simp
next
  case (Cons v vs)
  let ?b = "concat (concat (map setting_chunks vs)) @ b"
  have "f_r g = \<lparr>rd_bytes = be32 (pack24 (sv_Flag v) (sv_Id v)) @ be32 (sv_Value v) @ ?b, rd_end = e\<rparr>"
    using Cons.prems(2) by (simp add: concat_setting_chunks)
  moreover have "read_settings (length vs) (g\<lparr>f_r := \<lparr>rd_bytes = ?b, rd_end = e\<rparr>\<rparr>) =
      (Inr vs, g\<lparr>f_r := \<lparr>rd_bytes = b, rd_end = e\<rparr>\<rparr>)"
    using Cons.IH [of "g\<lparr>f_r := \<lparr>rd_bytes = ?b, rd_end = e\<rparr>\<rparr>"] Cons.prems(1) by simp
  ultimately show ?case using Cons.prems(1)
    by (simp add: codec_simps drop24_and_ff and_low24 pack24_high pack24_low)
qed

lemma delivers_Settings:
  assumes "in_sync zc f g" "wr_fault (f_w f) = None" "write_Settings f fr = (None, f', fr')"
    "within_limit g (Settings fr')" "frame_ok lib g (Settings fr)"
  shows "delivers lib zc g f f' (Settings fr')"
proof -
  let ?vs = "st_FlagIdValues fr" let ?n = "length ?vs"
  obtain k where k: "?n * 8 + 4 = k" by simp
  have n: "k \<le> MaxDataLength"
    using assms(3) by (auto simp: write_Settings_def Let_def k split: if_splits)
  then have "\<not> ?n > 2 ^ 32 - 1" using k by (simp add: MaxDataLength_def)
  with assms(2,3) n have w:
    "f' = f\<lparr>f_w := (f_w f)\<lparr>wr_out := wr_out (f_w f) @ concat (header_chunks (st_CFHeader fr')) @
       be32 (word_of_nat ?n) @ concat (concat (map setting_chunks ?vs))\<rparr>\<rparr>"
    "fr' = fr\<lparr>st_CFHeader := (st_CFHeader fr)\<lparr>cf_version := Version, cf_frameType := TypeSettings,
        cf_length := word_of_nat k\<rparr>\<rparr>"
    by (auto simp: write_Settings_def res_simps Let_def k split: if_splits)
  have u: "unat (word_of_nat k :: u32) = k" "unat (word_of_nat ?n :: u32) = ?n"
    using n k by (simp_all add: small_length)
  have "unat ((word_of_nat k - 4 :: u32) div 8) = ?n"
    using u(1) k by (simp add: unat_div unat_sub word_le_nat_alt)
  then have cnt: "\<not> (word_of_nat k :: u32) < 4" "\<not> (word_of_nat k - 4 :: u32) div 8 < word_of_nat ?n"
    using u k by (simp_all add: word_less_nat_alt)
  show ?thesis
  proof (rule delivers_control [where h = "st_CFHeader fr'"
          and body = "be32 (word_of_nat ?n) @ concat (concat (map setting_chunks ?vs))"])
    show "\<exists>g'. map_res Settings (read_Settings (st_CFHeader fr')
        (g\<lparr>f_r := \<lparr>rd_bytes = (be32 (word_of_nat ?n) @ concat (concat (map setting_chunks ?vs))) @ b, rd_end = e\<rparr>\<rparr>)) =
        (Inr (Settings fr'), g') \<and> f_r g' = \<lparr>rd_bytes = b, rd_end = e\<rparr> \<and> same_limits g g' \<and> in_sync zc f' g'"
      for b e
      using assms(1,5) w cnt u(2)
      by (auto simp: read_Settings_def codec_simps frame_ok_def
          read_settings_chunks [where b = b and e = e])
  qed (use assms w small_length(2) [OF n] in \<open>auto simp: ctor_simps within_limit_def frame_header_def\<close>)
qed

lemma delivers_Data:
  assumes "in_sync zc f g" "wr_fault (f_w f) = None" "writeDataFrame f fr = (None, f', fr')"
  shows "delivers lib zc g f f' (Data fr')"
proof -
  let ?n = "length (df_Data fr)"
  from assms(2,3) have w: "df_StreamId fr \<noteq> 0" "df_StreamId fr AND 0x80000000 = 0" "?n \<le> MaxDataLength"
    "f' = f\<lparr>f_w := (f_w f)\<lparr>wr_out := wr_out (f_w f) @
       be32 (df_StreamId fr) @ be32 (pack24 (df_Flags fr) (word_of_nat ?n)) @ df_Data fr\<rparr>\<rparr>" "fr' = fr"
    by (auto simp: writeDataFrame_def res_simps Let_def split: if_splits)
  note n = small_length [OF w(3)]
  have sid: "df_StreamId fr AND 0x7fffffff = df_StreamId fr"
    using w(2) by (rule and_low31_id)
  show ?thesis
    by (rule deliversI [where enc = "be32 (df_StreamId fr) @ be32 (pack24 (df_Flags fr) (word_of_nat ?n)) @ df_Data fr"])
      (use assms w n sid in \<open>auto simp: ReadFrame_def parseDataFrame_def codec_simps and_low24 pack24_low
         pack24_high onConn_def\<close>)
qed

lemma push_drop5: "(p :: u8) < 8 \<Longrightarrow> drop_bit 5 (push_bit 5 p) = p"
proof -
  assume "p < 8"
  then have "unat p < 8" by (simp add: word_less_nat_alt)
  then have "unat p \<in> {0, 1, 2, 3, 4, 5, 6, 7}" by auto
  then have "p \<in> {0, 1, 2, 3, 4, 5, 6, 7}"
    by (simp add: word_unat_eq_iff)
  then show ?thesis by auto
qed

text \<open>The length field of a header-carrying frame, less the fixed part, is the block's length.\<close>

lemma payload_size:
  assumes "n + m = k" "k \<le> MaxDataLength"
  shows "unat (word_of_nat k - word_of_nat m :: u32) = n"
  using assms by (simp add: unat_sub word_le_nat_alt small_length)

lemma delivers_SynStream:
  assumes "codec_ok lib zc zd f" "in_sync zc f g" "wr_fault (f_w f) = None"
    "writeSynStreamFrame lib f fr = (None, f', fr')"
    "within_limit g (SynStream fr')" "frame_ok lib g (SynStream fr)"
  shows "delivers lib zc g f f' (recv_frame lib (SynStream fr'))"
proof -
  from assms(6) have ok: "header_ok lib g (ss_Headers fr)" "ss_Priority fr < 8"
    "\<not> has_invalid invalidReqHeaders (recv_header lib (ss_Headers fr))"
    by (simp_all add: frame_ok_def)
  from assms(1,2) ok(1) obtain f1 where f1: "marshalHeaders lib (ss_Headers fr) f = (None, f1)" "f_w f1 = f_w f"
    and rd: "block_survives lib zc g f1 (ss_Headers fr)"
    by (rule marshal_in_sync)
  obtain k where k: "length (headerBuf f1) + 10 = k" by simp
  let ?body = "be32 (ss_StreamId fr) @ be32 (ss_AssociatedToStreamId fr) @
       be8 (push_bit 5 (ss_Priority fr)) @ be8 (ss_Slot fr) @ headerBuf f1"
  from assms(3,4) f1 k have n: "k \<le> MaxDataLength" and w: "ss_StreamId fr \<noteq> 0"
    "f' = f1\<lparr>f_w := (f_w f)\<lparr>wr_out := wr_out (f_w f) @ concat (header_chunks (ss_CFHeader fr')) @ ?body\<rparr>,
       headerBuf := []\<rparr>"
    "fr' = fr\<lparr>ss_CFHeader := (ss_CFHeader fr)\<lparr>cf_version := Version, cf_frameType := TypeSynStream,
        cf_length := word_of_nat k\<rparr>\<rparr>"
    by (auto simp: writeSynStreamFrame_def reset_headerBuf_def res_simps Let_def split: if_splits)
  have size: "unat (word_of_nat k - 10 :: u32) = length (headerBuf f1)"
    using payload_size [OF k n] by simp
  show ?thesis
  proof (rule delivers_control [where h = "ss_CFHeader fr'" and body = ?body])
    fix b e
    let ?g = "g\<lparr>f_r := \<lparr>rd_bytes = ?body @ b, rd_end = e\<rparr>\<rparr>"
      and ?g1 = "g\<lparr>f_r := \<lparr>rd_bytes = headerBuf f1 @ b, rd_end = e\<rparr>\<rparr>"
    obtain g2 where g2: "readHeaderBlock lib (word_of_nat k - 10) (ss_StreamId fr) ?g1 =
        (Inr (recv_header lib (ss_Headers fr)), g2)" "f_r g2 = \<lparr>rd_bytes = b, rd_end = e\<rparr>"
        "same_limits g g2" "in_sync zc (f1\<lparr>headerBuf := []\<rparr>) g2"
      using rd size by (rule block_survivesE)
    show "\<exists>g'. map_res SynStream (readSynStreamFrame lib (ss_CFHeader fr') ?g) = (Inr (recv_frame lib (SynStream fr')), g') \<and>
      f_r g' = \<lparr>rd_bytes = b, rd_end = e\<rparr> \<and> same_limits g g' \<and> in_sync zc f' g'"
      using w g2 ok(2,3) by (auto simp: readSynStreamFrame_def codec_simps push_drop5 recv_frame_def Let_def in_sync_def)
  qed (use assms w f1 small_length(2) [OF n] in \<open>auto simp: ctor_simps within_limit_def frame_header_def\<close>)
qed

lemma delivers_SynReply:
  assumes "codec_ok lib zc zd f" "in_sync zc f g" "wr_fault (f_w f) = None"
    "writeSynReplyFrame lib f fr = (None, f', fr')"
    "within_limit g (SynReply fr')" "frame_ok lib g (SynReply fr)"
  shows "delivers lib zc g f f' (recv_frame lib (SynReply fr'))"
proof -
  from assms(6) have ok: "header_ok lib g (sr_Headers fr)"
    "\<not> has_invalid invalidRespHeaders (recv_header lib (sr_Headers fr))"
    by (simp_all add: frame_ok_def)
  from assms(1,2) ok(1) obtain f1 where f1: "marshalHeaders lib (sr_Headers fr) f = (None, f1)" "f_w f1 = f_w f"
    and rd: "block_survives lib zc g f1 (sr_Headers fr)"
    by (rule marshal_in_sync)
  obtain k where k: "length (headerBuf f1) + 4 = k" by simp
  let ?body = "be32 (sr_StreamId fr) @ headerBuf f1"
  from assms(3,4) f1 k have n: "k \<le> MaxDataLength" and w: "sr_StreamId fr \<noteq> 0"
    "f' = f1\<lparr>f_w := (f_w f)\<lparr>wr_out := wr_out (f_w f) @ concat (header_chunks (sr_CFHeader fr')) @ ?body\<rparr>,
       headerBuf := []\<rparr>"
    "fr' = fr\<lparr>sr_CFHeader := (sr_CFHeader fr)\<lparr>cf_version := Version, cf_frameType := TypeSynReply,
        cf_length := word_of_nat k\<rparr>\<rparr>"
    by (auto simp: writeSynReplyFrame_def reset_headerBuf_def res_simps Let_def split: if_splits)
  have size: "unat (word_of_nat k - 4 :: u32) = length (headerBuf f1)"
    using payload_size [OF k n] by simp
  show ?thesis
  proof (rule delivers_control [where h = "sr_CFHeader fr'" and body = ?body])
    fix b e
    let ?g = "g\<lparr>f_r := \<lparr>rd_bytes = ?body @ b, rd_end = e\<rparr>\<rparr>"
      and ?g1 = "g\<lparr>f_r := \<lparr>rd_bytes = headerBuf f1 @ b, rd_end = e\<rparr>\<rparr>"
    obtain g2 where g2: "readHeaderBlock lib (word_of_nat k - 4) (sr_StreamId fr) ?g1 =
        (Inr (recv_header lib (sr_Headers fr)), g2)" "f_r g2 = \<lparr>rd_bytes = b, rd_end = e\<rparr>"
        "same_limits g g2" "in_sync zc (f1\<lparr>headerBuf := []\<rparr>) g2"
      using rd size by (rule block_survivesE)
    show "\<exists>g'. map_res SynReply (readSynReplyFrame lib (sr_CFHeader fr') ?g) = (Inr (recv_frame lib (SynReply fr')), g') \<and>
      f_r g' = \<lparr>rd_bytes = b, rd_end = e\<rparr> \<and> same_limits g g' \<and> in_sync zc f' g'"
      using w g2 ok(2) by (auto simp: readSynReplyFrame_def codec_simps recv_frame_def Let_def in_sync_def)
  qed (use assms w f1 small_length(2) [OF n] in \<open>auto simp: ctor_simps within_limit_def frame_header_def\<close>)
qed

lemma delivers_Headers:
  assumes "codec_ok lib zc zd f" "in_sync zc f g" "wr_fault (f_w f) = None"
    "writeHeadersFrame lib f fr = (None, f', fr')"
    "within_limit g (Headers fr')" "frame_ok lib g (Headers fr)"
  shows "delivers lib zc g f f' (recv_frame lib (Headers fr'))"
proof -
  from assms(6) have ok: "header_ok lib g (hd_Headers fr)"
    "\<not> has_invalid (if hd_StreamId fr mod 2 = 0 then invalidReqHeaders else invalidRespHeaders)
       (recv_header lib (hd_Headers fr))"
    by (simp_all add: frame_ok_def)
  from assms(1,2) ok(1) obtain f1 where f1: "marshalHeaders lib (hd_Headers fr) f = (None, f1)" "f_w f1 = f_w f"
    and rd: "block_survives lib zc g f1 (hd_Headers fr)"
    by (rule marshal_in_sync)
  obtain k where k: "length (headerBuf f1) + 4 = k" by simp
  let ?body = "be32 (hd_StreamId fr) @ headerBuf f1"
  from assms(3,4) f1 k have n: "k \<le> MaxDataLength" and w: "hd_StreamId fr \<noteq> 0"
    "f' = f1\<lparr>f_w := (f_w f)\<lparr>wr_out := wr_out (f_w f) @ concat (header_chunks (hd_CFHeader fr')) @ ?body\<rparr>,
       headerBuf := []\<rparr>"
    "fr' = fr\<lparr>hd_CFHeader := (hd_CFHeader fr)\<lparr>cf_version := Version, cf_frameType := TypeHeaders,
        cf_length := word_of_nat k\<rparr>\<rparr>"
    by (auto simp: writeHeadersFrame_def reset_headerBuf_def res_simps Let_def split: if_splits)
  have size: "unat (word_of_nat k - 4 :: u32) = length (headerBuf f1)"
    using payload_size [OF k n] by simp
  show ?thesis
  proof (rule delivers_control [where h = "hd_CFHeader fr'" and body = ?body])
    fix b e
    let ?g = "g\<lparr>f_r := \<lparr>rd_bytes = ?body @ b, rd_end = e\<rparr>\<rparr>"
      and ?g1 = "g\<lparr>f_r := \<lparr>rd_bytes = headerBuf f1 @ b, rd_end = e\<rparr>\<rparr>"
    obtain g2 where g2: "readHeaderBlock lib (word_of_nat k - 4) (hd_StreamId fr) ?g1 =
        (Inr (recv_header lib (hd_Headers fr)), g2)" "f_r g2 = \<lparr>rd_bytes = b, rd_end = e\<rparr>"
        "same_limits g g2" "in_sync zc (f1\<lparr>headerBuf := []\<rparr>) g2"
      using rd size by (rule block_survivesE)
    show "\<exists>g'. map_res Headers (readHeadersFrame lib (hd_CFHeader fr') ?g) = (Inr (recv_frame lib (Headers fr')), g') \<and>
      f_r g' = \<lparr>rd_bytes = b, rd_end = e\<rparr> \<and> same_limits g g' \<and> in_sync zc f' g'"
      using w g2 ok(2) by (auto simp: readHeadersFrame_def codec_simps recv_frame_def Let_def in_sync_def)
  qed (use assms w f1 small_length(2) [OF n] in \<open>auto simp: ctor_simps within_limit_def frame_header_def\<close>)
qed

lemma WriteFrame_delivers:
  assumes "codec_ok lib zc zd f" "in_sync zc f g" "wr_fault (f_w f) = None"
    "WriteFrame lib f fr = (None, f', fr')" "within_limit g fr'" "frame_ok lib g fr"
  shows "delivers lib zc g f f' (recv_frame lib fr')"
proof (cases fr)
  case (SynStream x)
  with assms show ?thesis
    by (auto simp: map_frame_def split: prod.splits intro: delivers_SynStream)
next
  case (SynReply x)
  with assms show ?thesis
    by (auto simp: map_frame_def split: prod.splits intro: delivers_SynReply)
next
  case (Headers x)
  with assms show ?thesis
    by (auto simp: map_frame_def split: prod.splits intro: delivers_Headers)
next
  case (RstStream x)
  with assms show ?thesis
    by (auto simp: map_frame_def recv_frame_def split: prod.splits intro: delivers_RstStream)
next
  case (Settings x)
  with assms show ?thesis
    by (auto simp: map_frame_def recv_frame_def split: prod.splits intro: delivers_Settings)
next
  case (Ping x)
  with assms show ?thesis
    by (auto simp: map_frame_def recv_frame_def split: prod.splits intro: delivers_Ping)
next
  case (GoAway x)
  with assms show ?thesis
    by (auto simp: map_frame_def recv_frame_def split: prod.splits intro: delivers_GoAway)
next
  case (WindowUpdate x)
  with assms show ?thesis
    by (auto simp: map_frame_def recv_frame_def split: prod.splits intro: delivers_WindowUpdate)
next
  case (Data x)
  with assms show ?thesis
    by (auto simp: map_frame_def recv_frame_def split: prod.splits intro: delivers_Data)
qed

lemma frame_ok_limits: "same_limits g g' \<Longrightarrow> frame_ok lib g' fr = frame_ok lib g fr"
  by (simp add: frame_ok_def header_ok_def maxHeaders_of_def maxFieldSize_of_def same_limits_def
      split: frame.split)

lemma within_limit_limits: "same_limits g g' \<Longrightarrow> within_limit g' fr = within_limit g fr"
  by (simp add: within_limit_def maxControlFramePayload_of_def same_limits_def split: option.split)

lemma same_limits_trans: "same_limits g g' \<Longrightarrow> same_limits g' g'' \<Longrightarrow> same_limits g g''"
  by (simp add: same_limits_def)

section \<open>Sequences of frames\<close>

text \<open>A caller that writes frames one after the other and stops at the first error.\<close>

fun write_frames ::
  "('c, 'd) golib \<Rightarrow> ('c, 'd) framer \<Rightarrow> frame list \<Rightarrow> go_error option \<times> ('c, 'd) framer \<times> frame list" where
  "write_frames lib f [] = (None, f, [])"
| "write_frames lib f (fr # frs) =
     (case WriteFrame lib f fr of
        (Some err, f', fr') \<Rightarrow> (Some err, f', [fr'])
      | (None, f', fr') \<Rightarrow>
          (case write_frames lib f' frs of (err, f'', sent) \<Rightarrow> (err, f'', fr' # sent)))"

fun read_frames :: "('c, 'd) golib \<Rightarrow> nat \<Rightarrow> ('c, 'd) framer \<Rightarrow> ('c, 'd, frame list) fr_result" where
  "read_frames lib 0 g = (Inr [], g)"
| "read_frames lib (Suc n) g =
     rbind (ReadFrame lib g) (\<lambda>fr g. rbind (read_frames lib n g) (\<lambda>frs g. (Inr (fr # frs), g)))"

lemma codec_ok_step:
  assumes "codec_ok lib zc zd f" "in_sync zc f g" "in_sync zc f' g'"
    "headerCompressionDisabled f' = headerCompressionDisabled f"
  shows "codec_ok lib zc zd f'"
  using assms by (simp add: codec_ok_def)

lemma frames_delivered:
  assumes "zlib_spec lib zc zd" "in_sync zc f g" "wr_fault (f_w f) = None"
    "write_frames lib f frs = (None, f', sent)" "list_all (within_limit g) sent" "list_all (frame_ok lib g) frs"
  shows "\<exists>enc. f_w f' = (f_w f)\<lparr>wr_out := wr_out (f_w f) @ enc\<rparr> \<and>
     (\<forall>r. \<exists>g'. read_frames lib (length frs) (g\<lparr>f_r := r\<lparr>rd_bytes := enc @ rd_bytes r\<rparr>\<rparr>) =
         (Inr (map (recv_frame lib) sent), g') \<and> f_r g' = r \<and> same_limits g g' \<and> in_sync zc f' g')"
  using assms
proof (induction frs arbitrary: f g sent)
  case Nil
  then show ?case by (auto intro!: exI [of _ "[]"])
next
  case (Cons fr frs)
  obtain f1 fr' rest where w: "WriteFrame lib f fr = (None, f1, fr')"
    and ws: "write_frames lib f1 frs = (None, f', rest)" and sent: "sent = fr' # rest"
    using Cons.prems(4) by (auto split: prod.splits option.splits)
  have "codec_ok lib zc zd f" "within_limit g fr'" "frame_ok lib g fr"
    using Cons.prems sent by (simp_all add: codec_ok_def)
  then have "delivers lib zc g f f1 (recv_frame lib fr')"
    using Cons.prems(2,3) w by (intro WriteFrame_delivers)
  then obtain enc1 where e1: "f_w f1 = (f_w f)\<lparr>wr_out := wr_out (f_w f) @ enc1\<rparr>"
    and rd1: "\<And>r. \<exists>g'. ReadFrame lib (g\<lparr>f_r := r\<lparr>rd_bytes := enc1 @ rd_bytes r\<rparr>\<rparr>) =
        (Inr (recv_frame lib fr'), g') \<and> f_r g' = r \<and> same_limits g g' \<and> in_sync zc f1 g'"
    by (auto simp: delivers_def)
  have IH: "\<exists>enc. f_w f' = (f_w f1)\<lparr>wr_out := wr_out (f_w f1) @ enc\<rparr> \<and>
     (\<forall>r. \<exists>g'. read_frames lib (length frs) (g1\<lparr>f_r := r\<lparr>rd_bytes := enc @ rd_bytes r\<rparr>\<rparr>) =
         (Inr (map (recv_frame lib) rest), g') \<and> f_r g' = r \<and> same_limits g1 g' \<and> in_sync zc f' g')"
    if "in_sync zc f1 g1" "same_limits g g1" for g1
    using that Cons.prems sent ws e1
    by (intro Cons.IH) (auto simp: frame_ok_limits within_limit_limits list_all_iff)
  from rd1 obtain g0 where g0: "in_sync zc f1 g0" "same_limits g g0" by blast
  from IH [OF g0] obtain enc2 where e2: "f_w f' = (f_w f1)\<lparr>wr_out := wr_out (f_w f1) @ enc2\<rparr>" by blast
  have "\<exists>g'. read_frames lib (length (fr # frs)) (g\<lparr>f_r := r\<lparr>rd_bytes := (enc1 @ enc2) @ rd_bytes r\<rparr>\<rparr>) =
      (Inr (map (recv_frame lib) sent), g') \<and> f_r g' = r \<and> same_limits g g' \<and> in_sync zc f' g'" for r
  proof -
    let ?r = "r\<lparr>rd_bytes := enc2 @ rd_bytes r\<rparr>"
    from rd1 [of ?r] obtain g1 where g1: "ReadFrame lib (g\<lparr>f_r := ?r\<lparr>rd_bytes := enc1 @ rd_bytes ?r\<rparr>\<rparr>) =
        (Inr (recv_frame lib fr'), g1)" "f_r g1 = ?r" "same_limits g g1" "in_sync zc f1 g1" by blast
    from IH [OF g1(4,3)] obtain enc where enc: "f_w f' = (f_w f1)\<lparr>wr_out := wr_out (f_w f1) @ enc\<rparr>"
      "\<exists>g'. read_frames lib (length frs) (g1\<lparr>f_r := r\<lparr>rd_bytes := enc @ rd_bytes r\<rparr>\<rparr>) =
         (Inr (map (recv_frame lib) rest), g') \<and> f_r g' = r \<and> same_limits g1 g' \<and> in_sync zc f' g'" by blast
    have "enc = enc2" using arg_cong [OF enc(1) [unfolded e2], of wr_out] by simp
    with enc(2) obtain g2 where
      g2: "read_frames lib (length frs) (g1\<lparr>f_r := ?r\<rparr>) = (Inr (map (recv_frame lib) rest), g2)"
        "f_r g2 = r" "same_limits g1 g2" "in_sync zc f' g2" by auto
    have "g1\<lparr>f_r := ?r\<rparr> = g1" using g1(2) by (cases g1) simp
    with g1 g2 sent same_limits_trans show ?thesis by auto
  qed
  then show ?case using e1 e2 by (intro exI [of _ "enc1 @ enc2"]) simp
qed

section \<open>The length field\<close>

text \<open>A frame that was written without an error has a length that fits the 24-bit field.\<close>

lemma small_length_add:
  "k + 10 \<le> MaxDataLength \<Longrightarrow> unat (word_of_nat k + 10 :: u32) \<le> MaxDataLength"
  "k + 4 \<le> MaxDataLength \<Longrightarrow> unat (word_of_nat k + 4 :: u32) \<le> MaxDataLength"
  using small_length(1) [of "k + 10"] small_length(1) [of "k + 4"] by simp_all

lemma WriteFrame_length:
  assumes "WriteFrame lib f fr = (None, f', fr')" "frame_header fr' = Some h"
  shows "unat (cf_length h) \<le> MaxDataLength" "cf_version h = Version"
proof -
  note defs = map_frame_def frame_header_def with_frame_def Let_def small_length small_length_add not_less
  have "unat (cf_length h) \<le> MaxDataLength \<and> cf_version h = Version"
  proof (cases fr)
    case (SynStream x)
    with assms show ?thesis
      by (auto simp: writeSynStreamFrame_def defs split: if_splits prod.splits option.splits)
  next
    case (SynReply x)
    with assms show ?thesis
      by (auto simp: writeSynReplyFrame_def defs split: if_splits prod.splits option.splits)
  next
    case (Headers x)
    with assms show ?thesis
      by (auto simp: writeHeadersFrame_def defs split: if_splits prod.splits option.splits)
  next
    case (Settings x)
    obtain k where k: "length (st_FlagIdValues x) * 8 + 4 = k" by simp
    with assms Settings show ?thesis
      by (auto simp: write_Settings_def defs k split: if_splits prod.splits)
  next
    case (RstStream x)
    with assms show ?thesis
      by (auto simp: write_RstStream_def defs MaxDataLength_def split: if_splits prod.splits)
  next
    case (Ping x)
    with assms show ?thesis
      by (auto simp: write_Ping_def defs MaxDataLength_def split: if_splits prod.splits)
  next
    case (GoAway x)
    with assms show ?thesis
      by (auto simp: write_GoAway_def defs MaxDataLength_def split: prod.splits)
  next
    case (WindowUpdate x)
    with assms show ?thesis
      by (auto simp: write_WindowUpdate_def defs MaxDataLength_def split: prod.splits)
  next
    case (Data x)
    with assms show ?thesis
      by (auto simp: writeDataFrame_def defs split: if_splits prod.splits)
  qed
  then show "unat (cf_length h) \<le> MaxDataLength" "cf_version h = Version" by auto
qed

end
