(* ===== verification/Spdy_Session.thy ===== *)
theory Spdy_Session
  imports Spdy_Roundtrip
begin

text \<open>
  The codec end to end: a session of frames between two new framers, and one frame between two
  framers in step; with a concrete codec on which the statements are exercised.
\<close>

definition frame_length_ok :: "frame \<Rightarrow> bool" where
  "frame_length_ok fr = (case frame_header fr of None \<Rightarrow> True | Some h \<Rightarrow> unat (cf_length h) \<le> MaxDataLength)"

lemma WriteFrame_length_ok: "WriteFrame lib f fr = (None, f', fr') \<Longrightarrow> frame_length_ok fr'"
  by (simp add: frame_length_ok_def WriteFrame_length(1) split: option.split)




section \<open>A concrete codec for the witnesses\<close>

text \<open>
  The identity codec: it puts out what it takes and reads from the limited reader as it is.
\<close>

definition id_lib :: "(unit, unit) golib" where
  "id_lib = \<lparr>zw_new = (\<lambda>_. Inr ()), zw_write = (\<lambda>b c. (None, c, b)), zw_flush = (\<lambda>c. (c, [])),
     zr_new = (\<lambda>_ lr. (Inr (), lr)),
     zr_readFull = (\<lambda>n (d, r, lim).
       if n \<le> lim then (case readFull n r of (x, r') \<Rightarrow> (x, d, r', lim - n))
       else (case readFull lim r of (x, r') \<Rightarrow> (Inl ErrUnexpectedEOF, d, r', 0))),
     unicode_lower = id\<rparr>"

definition id_zc :: "(unit, unit) zc_rel" where
  "id_zc od pt p c = (p = pt)"

definition id_zd :: "(unit, unit) zd_rel" where
  "id_zd c pt r s = (case s of (d, r', n) \<Rightarrow> r' = r\<lparr>rd_bytes := pt @ rd_bytes r\<rparr> \<and> n = length pt)"


definition ex_frames :: "frame list" where
  "ex_frames =
     [SynStream \<lparr>ss_CFHeader = \<lparr>cf_version = 0, cf_frameType = 0, cf_Flags = ControlFlagFin, cf_length = 0\<rparr>,
        ss_StreamId = 1, ss_AssociatedToStreamId = 0, ss_Priority = 2, ss_Slot = 0,
        ss_Headers = [(bytes_of ''method'', [bytes_of ''GET'', bytes_of ''PUT'']), (bytes_of ''X-Id'', [[]])]\<rparr>,
      Settings \<lparr>st_CFHeader = \<lparr>cf_version = 0, cf_frameType = 0, cf_Flags = 0, cf_length = 0\<rparr>,
        st_FlagIdValues = [\<lparr>sv_Flag = 1, sv_Id = 7, sv_Value = 65536\<rparr>]\<rparr>,
      Data \<lparr>df_StreamId = 1, df_Flags = DataFlagFin, df_Data = [1, 2, 3]\<rparr>,
      Ping \<lparr>pg_CFHeader = \<lparr>cf_version = 0, cf_frameType = 0, cf_Flags = 0, cf_length = 0\<rparr>, pg_Id = 5\<rparr>]"

definition ex_writer :: writer where "ex_writer = \<lparr>wr_out = [], wr_fault = None\<rparr>"
definition ex_reader :: "byte list \<Rightarrow> reader" where "ex_reader bs = \<lparr>rd_bytes = bs, rd_end = EOF\<rparr>"

definition ex_framer :: "reader \<Rightarrow> (unit, unit) framer" where
  "ex_framer r = \<lparr>headerCompressionDisabled = False, f_w = ex_writer, headerBuf = [],
     headerCompressor = (), f_r = r, headerReader_N = 0, headerDecompressor = None,
     maxFrameLength = 0, maxHeaderFieldSize = 0, maxHeaderCount = 0\<rparr>"


lemmas ex_eval = ex_frames_def ex_framer_def ex_writer_def ex_reader_def id_lib_def bytes_of_def
  Let_def res_simps MaxDataLength_def MaxInt32_def ascii_lower_def is_ascii_def toLower_def


lemma ex_ok: "list_all (frame_ok id_lib (ex_framer r)) ex_frames"
  by (simp add: ex_eval frame_ok_def header_ok_def small_header_def wf_header_def wf_entry_def
      maxHeaders_of_def maxFieldSize_of_def defaultMaxHeaderCount_def defaultMaxHeaderFieldSize_def
      has_invalid_def invalidReqHeaders_def recv_header_def recv_name_def canonicalKey_def isTokenByte_def
      headerValueSeparator_def)


section \<open>One frame\<close>

text \<open>
  C5: A single frame: for framers whose zlib streams are in step, or with compression off, the
  bytes of a successful \<open>WriteFrame\<close>, followed by anything, are read by \<open>ReadFrame\<close> as
  the frame that was written (names lower-cased and put in canonical form), and exactly those
  bytes are consumed.
\<close>

theorem frame_roundtrip:
  assumes "headerCompressionDisabled f \<or> zlib_spec lib zc zd" "in_sync zc f g" "wr_fault (f_w f) = None"
    "WriteFrame lib f fr = (None, f', fr')" "within_limit g fr'" "frame_ok lib g fr"
  shows "\<exists>enc. f_w f' = (f_w f)\<lparr>wr_out := wr_out (f_w f) @ enc\<rparr> \<and>
     (\<forall>r. \<exists>g'. ReadFrame lib (g\<lparr>f_r := r\<lparr>rd_bytes := enc @ rd_bytes r\<rparr>\<rparr>) = (Inr (recv_frame lib fr'), g') \<and>
        f_r g' = r \<and> same_limits g g' \<and> in_sync zc f' g')"
  using WriteFrame_delivers [of lib zc zd f g fr f' fr'] assms by (simp add: delivers_def codec_ok_def)

definition ex_plain :: "reader \<Rightarrow> (unit, unit) framer" where
  "ex_plain r = (ex_framer r)\<lparr>headerCompressionDisabled := True\<rparr>"

theorem frame_roundtrip_witness:
  "\<exists>f' fr' g'. WriteFrame id_lib (ex_plain (ex_reader [])) (hd ex_frames) = (None, f', fr') \<and>
     ReadFrame id_lib (ex_plain (ex_reader (wr_out (f_w f') @ [7]))) = (Inr (recv_frame id_lib fr'), g') \<and>
     f_r g' = ex_reader [7]"
proof -
  let ?f = "ex_plain (ex_reader [])"
  obtain err f' fr' where w: "WriteFrame id_lib ?f (hd ex_frames) = (err, f', fr')" by (metis prod_cases3)
  have "fst (WriteFrame id_lib ?f (hd ex_frames)) = None"
    by (simp add: ex_eval ex_plain_def writeSynStreamFrame_def marshalHeaders_def writeHeaderValueBlock_def
        headerBuf_Write_def reset_headerBuf_def)
  with w have w': "WriteFrame id_lib ?f (hd ex_frames) = (None, f', fr')" by simp
  have 1: "headerCompressionDisabled ?f \<or> zlib_spec id_lib id_zc id_zd" by (simp add: ex_plain_def)
  have 2: "in_sync id_zc ?f ?f" by (simp add: in_sync_def ex_plain_def ex_framer_def)
  have 3: "wr_fault (f_w ?f) = None" "wr_out (f_w ?f) = []" by (simp_all add: ex_plain_def ex_framer_def ex_writer_def)
  have 4: "within_limit ?f fr'"
    using WriteFrame_length_ok [OF w'] by (auto simp: within_limit_def frame_length_ok_def ex_plain_def ex_framer_def
        maxControlFramePayload_of_def word_le_nat_alt small_length split: option.splits)
  have "same_limits (ex_framer (ex_reader [])) ?f" by (simp add: same_limits_def ex_plain_def)
  with ex_ok [of "ex_reader []"] have 5: "frame_ok id_lib ?f (hd ex_frames)"
    by (simp add: frame_ok_limits list_all_iff ex_frames_def)
  from frame_roundtrip [OF 1 2 3(1) w' 4 5] obtain enc where
    enc: "f_w f' = (f_w ?f)\<lparr>wr_out := wr_out (f_w ?f) @ enc\<rparr>"
    "\<forall>r. \<exists>g'. ReadFrame id_lib (?f\<lparr>f_r := r\<lparr>rd_bytes := enc @ rd_bytes r\<rparr>\<rparr>) = (Inr (recv_frame id_lib fr'), g') \<and>
       f_r g' = r \<and> same_limits ?f g' \<and> in_sync id_zc f' g'" by blast
  have "?f\<lparr>f_r := (ex_reader [7])\<lparr>rd_bytes := enc @ rd_bytes (ex_reader [7])\<rparr>\<rparr> = ex_plain (ex_reader (enc @ [7]))"
    by (simp add: ex_plain_def ex_framer_def ex_reader_def)
  with enc(2) [THEN spec, of "ex_reader [7]"] w' show ?thesis by (auto simp: enc(1) 3(2))
qed

end
