(* ===== verification/Spdy_Faults.thy ===== *)
theory Spdy_Faults
  imports Spdy_Session "HOL-Library.Sublist"
begin

text \<open>
  Writing on a connection that fails: whatever \<open>WriteFrame\<close> puts out is a prefix of what it
  would have put out on a connection that does not fail, and an error is never lost.
\<close>

section \<open>A failing connection truncates\<close>

text \<open>The same framer on a connection that never fails.\<close>

definition unfault :: "('c, 'd) framer \<Rightarrow> ('c, 'd) framer" where
  "unfault f = f\<lparr>f_w := (f_w f)\<lparr>wr_fault := None\<rparr>\<rparr>"

definition out :: "('c, 'd) framer \<Rightarrow> byte list" where "out f = wr_out (f_w f)"

text \<open>
  \<open>truncates r r0\<close>: the outcome \<open>r\<close> on a connection that may fail, against the outcome
  \<open>r0\<close> without failures: the same, or an error after a prefix of the output.
\<close>

definition truncates :: "go_error option \<times> ('c, 'd) framer \<Rightarrow> go_error option \<times> ('c, 'd) framer \<Rightarrow> bool" where
  "truncates r r0 = ((fst r = fst r0 \<and> snd r0 = unfault (snd r)) \<or>
     (fst r \<noteq> None \<and> prefix (out (snd r)) (out (snd r0))))"

definition steady :: "(('c, 'd) framer \<Rightarrow> go_error option \<times> ('c, 'd) framer) \<Rightarrow> bool" where
  "steady k = (\<forall>f. truncates (k f) (k (unfault f)) \<and> prefix (out f) (out (snd (k f))))"

lemma unfault_sel [simp]: "headerBuf (unfault f) = headerBuf f" "wr_fault (f_w (unfault f)) = None"
  "out (unfault f) = out f" "headerCompressionDisabled (unfault f) = headerCompressionDisabled f"
  "headerCompressor (unfault f) = headerCompressor f"
  by (simp_all add: unfault_def out_def)

lemma out_upd [simp]: "out (f\<lparr>headerBuf := b\<rparr>) = out f" "out (f\<lparr>headerCompressor := c\<rparr>) = out f"
  by (simp_all add: out_def)

lemma f_send_out: "prefix (out f) (out (snd (f_send bs f)))"
  using write_all_out [of bs "f_w f"]
  by (auto simp: f_send_def out_def prefix_def split: prod.split)

lemma write_bytes_unfault:
  assumes "write_bytes b w = (None, w')"
  shows "write_bytes b (w\<lparr>wr_fault := None\<rparr>) = (None, w'\<lparr>wr_fault := None\<rparr>)"
  using assms by (auto simp: write_bytes_def split: option.splits prod.splits if_splits)

lemma write_all_unfault:
  assumes "write_all bs w = (None, w')"
  shows "write_all bs (w\<lparr>wr_fault := None\<rparr>) = (None, w'\<lparr>wr_fault := None\<rparr>)"
  using assms
proof (induction bs arbitrary: w)
  case (Cons b bs)
  then show ?case by (auto split: prod.splits option.splits simp: write_bytes_unfault)
qed simp

lemma f_send_truncates:
  assumes "bs' = bs"
  shows "truncates (f_send bs f) (f_send bs' (unfault f))"
proof -
  obtain err w where w: "write_all bs (f_w f) = (err, w)" by fastforce
  show ?thesis
  proof (cases err)
    case None
    with w assms show ?thesis
      by (simp add: truncates_def f_send_def unfault_def write_all_unfault)
  next
    case (Some e)
    from write_all_out [OF w] have "prefix (wr_out w) (wr_out (f_w f) @ concat bs)"
      by (auto simp: prefix_def)
    with Some w assms show ?thesis
      by (simp add: truncates_def f_send_def unfault_def write_all_ok out_def)
  qed
qed

lemma steady_send: "(\<And>f. c (unfault f) = c f) \<Longrightarrow> steady (\<lambda>f. f_send (c f) f)"
  by (simp add: steady_def f_send_truncates f_send_out)

lemma steady_fail: "steady (\<lambda>f. (Some e, f))"
  by (simp add: steady_def truncates_def)

lemma steady_reset: "steady (\<lambda>f. (None, f\<lparr>headerBuf := []\<rparr>))"
  by (simp add: steady_def truncates_def) (simp add: unfault_def)

lemma wthen_truncates:
  assumes "truncates r r0" "steady k"
  shows "truncates (wthen r k) (wthen r0 k)"
proof -
  obtain e f where r: "r = (e, f)" by fastforce
  obtain e0 f0 where r0: "r0 = (e0, f0)" by fastforce
  have ext: "prefix (out f0) (out (snd (wthen r0 k)))"
    using assms(2) r0 by (cases e0) (auto simp: steady_def)
  show ?thesis
  proof (cases e)
    case None
    with assms r r0 show ?thesis by (auto simp: truncates_def steady_def)
  next
    case (Some x)
    then show ?thesis
      using assms(1) r r0 prefix_order.trans [OF _ ext] by (cases e0) (auto simp: truncates_def)
  qed
qed

lemma wthen_out:
  assumes "prefix p (out (snd r))" "steady k"
  shows "prefix p (out (snd (wthen r k)))"
proof -
  obtain e f where "r = (e, f)" by fastforce
  with assms show ?thesis
    by (cases e) (auto simp: steady_def intro: prefix_order.trans)
qed

lemma steady_then: "steady k1 \<Longrightarrow> steady k2 \<Longrightarrow> steady (\<lambda>f. wthen (k1 f) k2)"
  by (simp add: steady_def wthen_truncates wthen_out)

text \<open>Marshalling does not touch the connection, so it is the same with and without faults.\<close>

lemma writeHeaders_commute:
  assumes "\<And>b s. wr b (u s) = apsnd u (wr b s)"
  shows "writeHeaders wr lib n h (u s) = apsnd (apsnd u) (writeHeaders wr lib n h s)"
proof (induction h arbitrary: n s)
  case (Cons kv h)
  then show ?case
    by (cases kv) (auto simp: Let_def assms split: prod.splits option.splits)
qed simp

lemma writeHeaders_keeps:
  assumes "\<And>b s. q (snd (wr b s)) = q s"
  shows "q (snd (snd (writeHeaders wr lib n h s))) = q s"
proof (induction h arbitrary: n s)
  case (Cons kv h)
  have "wr b s = (e, s') \<Longrightarrow> q s' = q s" for b s e s' using assms [of b s] by simp
  with Cons show ?case
    by (cases kv) (auto simp: Let_def split: prod.splits option.splits)
qed simp

lemma writeHeaderValueBlock_commute:
  assumes "\<And>b s. wr b (u s) = apsnd u (wr b s)"
  shows "writeHeaderValueBlock wr lib h (u s) = apsnd (apsnd u) (writeHeaderValueBlock wr lib h s)"
  by (auto simp: writeHeaderValueBlock_def Let_def assms writeHeaders_commute [where wr = wr and u = u, OF assms]
      split: prod.splits option.splits)

lemma writeHeaderValueBlock_keeps:
  assumes "\<And>b s. q (snd (wr b s)) = q s"
  shows "q (snd (snd (writeHeaderValueBlock wr lib h s))) = q s"
proof (cases "length h > MaxInt32")
  case False
  obtain e s' where w: "wr (be32 (word_of_nat (length h))) s = (e, s')" by fastforce
  with assms [of "be32 (word_of_nat (length h))" s] have "q s' = q s" by simp
  with False w writeHeaders_keeps [where q = q and wr = wr and lib = lib, OF assms] show ?thesis
    by (cases e) (simp_all add: writeHeaderValueBlock_def Let_def)
qed (simp add: writeHeaderValueBlock_def)

lemma writers_unfault:
  "headerBuf_Write b (unfault f) = apsnd unfault (headerBuf_Write b f)"
  "headerCompressor_Write lib b (unfault f) = apsnd unfault (headerCompressor_Write lib b f)"
  "headerCompressor_Flush lib (unfault f) = unfault (headerCompressor_Flush lib f)"
  by (simp_all add: headerBuf_Write_def headerCompressor_Write_def headerCompressor_Flush_def unfault_def
      split: prod.split)

lemma writers_out:
  "out (snd (headerBuf_Write b f)) = out f"
  "out (snd (headerCompressor_Write lib b f)) = out f"
  "out (headerCompressor_Flush lib f) = out f"
  by (simp_all add: headerBuf_Write_def headerCompressor_Write_def headerCompressor_Flush_def
      split: prod.split)

lemma marshal_unfault: "marshalHeaders lib h (unfault f) = apsnd unfault (marshalHeaders lib h f)"
  by (auto simp: marshalHeaders_def Let_def writers_unfault
      writeHeaderValueBlock_commute [where u = unfault] split: prod.splits option.splits)

lemma marshal_out: "out (snd (marshalHeaders lib h f)) = out f"
proof -
  have "out (snd (snd (writeHeaderValueBlock wr lib h f))) = out f"
    if "wr = headerBuf_Write \<or> wr = headerCompressor_Write lib" for wr
    using that by (intro writeHeaderValueBlock_keeps) (auto simp: writers_out)
  then show ?thesis
    by (force simp: marshalHeaders_def Let_def writers_out split: prod.splits option.splits)
qed

lemma steady_if:
  "(b \<Longrightarrow> steady k1) \<Longrightarrow> (\<not> b \<Longrightarrow> steady k2) \<Longrightarrow> steady (\<lambda>f. if b then k1 f else k2 f)"
  by (cases b) simp_all

text \<open>A write method that does its work in a steady way.\<close>

definition cuts :: "(go_error option \<times> ('c, 'd) framer \<times> 'f) \<Rightarrow> (go_error option \<times> ('c, 'd) framer \<times> 'f) \<Rightarrow> bool" where
  "cuts r r0 = (snd (snd r0) = snd (snd r) \<and> truncates (fst r, fst (snd r)) (fst r0, fst (snd r0)))"

lemma cuts_with_frame: "truncates r r0 \<Longrightarrow> cuts (with_frame fr r) (with_frame fr r0)"
  by (cases r; cases r0) (simp add: cuts_def)

lemma cuts_map_frame: "cuts r r0 \<Longrightarrow> cuts (map_frame c r) (map_frame c r0)"
  by (cases r; cases r0) (auto simp: cuts_def)

lemma cuts_fail: "cuts (Some e, f, fr) (Some e, unfault f, fr)"
  by (simp add: cuts_def truncates_def)

lemmas cut_intros = cuts_map_frame cuts_with_frame cuts_fail wthen_truncates f_send_truncates
  steady_send steady_fail steady_reset steady_then steady_if

lemma cuts_RstStream: "cuts (write_RstStream f fr) (write_RstStream (unfault f) fr)"
  by (auto simp: write_RstStream_def Let_def intro!: cut_intros)

lemma cuts_Settings: "cuts (write_Settings f fr) (write_Settings (unfault f) fr)"
  by (auto simp: write_Settings_def Let_def intro!: cut_intros)

lemma cuts_Ping: "cuts (write_Ping f fr) (write_Ping (unfault f) fr)"
  by (auto simp: write_Ping_def Let_def intro!: cut_intros)

lemma cuts_GoAway: "cuts (write_GoAway f fr) (write_GoAway (unfault f) fr)"
  by (auto simp: write_GoAway_def Let_def intro!: cut_intros)

lemma cuts_WindowUpdate: "cuts (write_WindowUpdate f fr) (write_WindowUpdate (unfault f) fr)"
  by (auto simp: write_WindowUpdate_def Let_def intro!: cut_intros)

lemma cuts_Data: "cuts (writeDataFrame f fr) (writeDataFrame (unfault f) fr)"
  by (auto simp: writeDataFrame_def Let_def intro!: cut_intros)

lemma cuts_SynStream: "cuts (writeSynStreamFrame lib f fr) (writeSynStreamFrame lib (unfault f) fr)"
  by (cases "marshalHeaders lib (ss_Headers fr) f")
    (auto simp: writeSynStreamFrame_def Let_def reset_headerBuf_def marshal_unfault
      split: option.split intro!: cut_intros)

lemma cuts_SynReply: "cuts (writeSynReplyFrame lib f fr) (writeSynReplyFrame lib (unfault f) fr)"
  by (cases "marshalHeaders lib (sr_Headers fr) f")
    (auto simp: writeSynReplyFrame_def Let_def reset_headerBuf_def marshal_unfault
      split: option.split intro!: cut_intros)

lemma cuts_Headers: "cuts (writeHeadersFrame lib f fr) (writeHeadersFrame lib (unfault f) fr)"
  by (cases "marshalHeaders lib (hd_Headers fr) f")
    (auto simp: writeHeadersFrame_def Let_def reset_headerBuf_def marshal_unfault
      split: option.split intro!: cut_intros)

lemma cuts_WriteFrame: "cuts (WriteFrame lib f fr) (WriteFrame lib (unfault f) fr)"
  by (cases fr) (simp_all add: cuts_map_frame cuts_RstStream cuts_Settings cuts_Ping cuts_GoAway
      cuts_WindowUpdate cuts_Data cuts_SynStream cuts_SynReply cuts_Headers)

text \<open>
  C9: Writing a frame on a connection that fails after any number of bytes: the bytes put out
  are a prefix of those of a connection without failures, the frame is returned the same, and
  if no error is reported, nothing was lost and the framer is in the same state.
\<close>

theorem WriteFrame_truncates:
  assumes "WriteFrame lib f fr = (err, f', fr')" "WriteFrame lib (unfault f) fr = (err0, f0, fr0)"
  shows "fr0 = fr' \<and> prefix (wr_out (f_w f')) (wr_out (f_w f0)) \<and>
     (err = None \<longrightarrow> err0 = None \<and> f0 = unfault f')"
  using cuts_WriteFrame [of lib f fr] assms unfault_sel(3) [of f']
  by (auto simp: cuts_def truncates_def out_def)

definition ex_faulty :: "(unit, unit) framer" where
  "ex_faulty = (ex_framer (ex_reader []))\<lparr>f_w := \<lparr>wr_out = [], wr_fault = Some (10, NetError 1)\<rparr>\<rparr>"

definition ex_ping :: frame where
  "ex_ping = Ping \<lparr>pg_CFHeader = \<lparr>cf_version = 0, cf_frameType = 0, cf_Flags = 0, cf_length = 0\<rparr>, pg_Id = 7\<rparr>"

theorem WriteFrame_truncates_witness:
  "\<exists>f' f0 sent. WriteFrame id_lib ex_faulty ex_ping = (Some (NetError 1), f', sent) \<and>
     WriteFrame id_lib (unfault ex_faulty) ex_ping = (None, f0, sent) \<and>
     wr_out (f_w f0) = [0x80, 3, 0, 6, 0, 0, 0, 4, 0, 0, 0, 7] \<and>
     prefix (wr_out (f_w f')) (wr_out (f_w f0)) \<and> wr_out (f_w f') = [0x80, 3, 0, 6, 0, 0, 0, 4, 0, 0]"
proof -
  obtain e f' fr where 1: "WriteFrame id_lib ex_faulty ex_ping = (e, f', fr)" by (metis prod_cases3)
  obtain e0 f0 fr0 where 2: "WriteFrame id_lib (unfault ex_faulty) ex_ping = (e0, f0, fr0)" by (metis prod_cases3)
  note ev = ex_faulty_def ex_ping_def unfault_def ex_eval write_Ping_def f_send_def write_bytes_def
    header_chunks_def pack24_def be16_def be32_def Version_def TypePing_def
  have "e = Some (NetError 1)" "wr_out (f_w f') = [0x80, 3, 0, 6, 0, 0, 0, 4, 0, 0]"
    using 1 by (auto simp: ev)
  moreover have "e0 = None" "wr_out (f_w f0) = [0x80, 3, 0, 6, 0, 0, 0, 4, 0, 0, 0, 7]"
    using 2 by (auto simp: ev)
  ultimately show ?thesis using 1 2 WriteFrame_truncates [OF 1 2] by auto
qed

end
