(* ===== verification/Spdy_Safety.thy ===== *)
theory Spdy_Safety
  imports Spdy_Session
begin

text \<open>
  What the decoder guarantees for any bytes whatever: the frames it returns are well-formed and
  within the limits, and each takes at least its header from the connection.
\<close>

section \<open>Readers\<close>

text \<open>
  The interface of an \<open>io.ReadFull\<close> over the network connection: \<open>rest\<close> is what the
  connection has still to deliver.  A read that succeeds gives as many bytes as asked for, and
  the connection is only ever read forward.
\<close>

definition forward :: "byte list \<Rightarrow> byte list \<Rightarrow> bool" where
  "forward bs bs' = (\<exists>m. bs' = drop m bs)"

lemma forward_refl [simp]: "forward bs bs"
  unfolding forward_def by (rule exI [of _ 0]) simp

lemma forward_trans: "forward a b \<Longrightarrow> forward b c \<Longrightarrow> forward a c"
  by (auto simp: forward_def)

text \<open>Header fields within limits, as many as \<open>n\<close>.\<close>

definition entry_ok :: "u32 \<Rightarrow> gostring \<times> gostring list \<Rightarrow> bool" where
  "entry_ok maxField kv = (case kv of (k, vs) \<Rightarrow> canonicalKey k = k \<and> vs \<noteq> [] \<and>
     (\<forall>v\<in>set vs. length v \<le> unat maxField \<and> headerValueSeparator \<notin> set v))"

definition header_limits :: "nat \<Rightarrow> u32 \<Rightarrow> http_header \<Rightarrow> bool" where
  "header_limits n maxField h = (distinct (map fst h) \<and> length h \<le> n \<and> list_all (entry_ok maxField) h)"

lemma splitSep_parts: "v \<in> set (splitSep s) \<Longrightarrow> length v \<le> length s \<and> headerValueSeparator \<notin> set v"
proof (induction s arbitrary: v)
  case (Cons c s)
  obtain w ws where w: "splitSep s = w # ws" by (cases "splitSep s") auto
  with Cons.IH [of w] Cons.IH [of v] Cons.prems show ?case by (auto split: if_splits)
qed simp

lemma map_append_ok:
  assumes "list_all (entry_ok maxField) h" "canonicalKey k = k" "length v \<le> unat maxField" "headerValueSeparator \<notin> set v"
  shows "list_all (entry_ok maxField) (map_append h k v)"
  using assms by (induction h k v rule: map_append.induct) (auto simp: entry_ok_def)

lemma map_append_length: "length (map_append h k v) = (if k \<in> fst ` set h then length h else Suc (length h))"
  by (induction h k v rule: map_append.induct) auto

lemma AddAll_ok:
  assumes "list_all (entry_ok maxField) h" "\<forall>v\<in>set vs. length v \<le> unat maxField \<and> headerValueSeparator \<notin> set v"
    "distinct (map fst h)"
  shows "list_all (entry_ok maxField) (header_AddAll h n vs) \<and> distinct (map fst (header_AddAll h n vs)) \<and>
     length (header_AddAll h n vs) \<le> (if canonicalKey n \<in> fst ` set h then length h else Suc (length h))"
  using assms
proof (induction vs arbitrary: h)
  case (Cons v vs)
  let ?h = "header_Add h n v" and ?k = "canonicalKey n"
  have "list_all (entry_ok maxField) ?h" "distinct (map fst ?h)"
    using Cons.prems by (simp_all add: header_Add_def map_append_ok distinct_map_append del: map_map)
  moreover have "?k \<in> fst ` set ?h" using map_append_keys [of h ?k v] by (auto simp: header_Add_def)
  moreover have "length ?h = (if ?k \<in> fst ` set h then length h else Suc (length h))"
    by (simp add: header_Add_def map_append_length)
  ultimately show ?case using Cons.IH [of ?h] Cons.prems(2) by (auto simp: header_AddAll_def)
qed (simp add: header_AddAll_def)

lemma AddAll_limits:
  assumes "header_limits n maxField h" "length val \<le> unat maxField"
  shows "header_limits (Suc n) maxField (header_AddAll h name (splitSep val))"
proof -
  have "\<forall>v\<in>set (splitSep val). length v \<le> unat maxField \<and> headerValueSeparator \<notin> set v"
    using splitSep_parts assms(2) by (meson le_trans)
  with AddAll_ok [of maxField h "splitSep val" name] assms(1) show ?thesis
    by (auto simp: header_limits_def split: if_splits)
qed

locale full_reader =
  fixes rf :: "'s read_full" and rest :: "'s \<Rightarrow> byte list"
  assumes rf_full: "rf n s = (Inr bs, s') \<Longrightarrow> length bs = n \<and> forward (rest s) (rest s')"
begin

lemma readU32_full: "readU32 rf s = (Inr v, s') \<Longrightarrow> forward (rest s) (rest s')"
  by (auto simp: readU32_def rbind_Inr_iff dest: rf_full)

lemma parseHeaders_limits:
  assumes "parseHeaders rf lib maxField sid n h e s = (Inr (h', e'), s')" "header_limits k maxField h"
  shows "header_limits (k + n) maxField h' \<and> forward (rest s) (rest s')"
  using assms
proof (induction n arbitrary: h e s k)
  case (Suc n)
  from Suc.prems(1) obtain len s1 nb s2 len2 s3 val s4 e2 where
    1: "readU32 rf s = (Inr len, s1)" "rf (unat len) s1 = (Inr nb, s2)" "readU32 rf s2 = (Inr len2, s3)"
      "\<not> len2 > maxField" "rf (unat len2) s3 = (Inr val, s4)"
      "parseHeaders rf lib maxField sid n (header_AddAll h (toLower lib nb) (splitSep val)) e2 s4 = (Inr (h', e'), s')"
    by (auto simp: rbind_Inr_iff Let_def split: if_splits)
  have "length val \<le> unat maxField" using 1(4,5) rf_full by (auto simp: not_less word_le_nat_alt)
  with Suc.prems(2) have "header_limits (Suc k) maxField (header_AddAll h (toLower lib nb) (splitSep val))"
    by (rule AddAll_limits)
  from Suc.IH [OF 1(6) this] have "header_limits (k + Suc n) maxField h'" "forward (rest s4) (rest s')" by simp_all
  moreover have "forward (rest s) (rest s4)"
    using readU32_full [OF 1(1)] rf_full [OF 1(2)] readU32_full [OF 1(3)] rf_full [OF 1(5)] by (blast intro: forward_trans)
  ultimately show ?case by (blast intro: forward_trans)
qed simp

lemma parseHeaderValueBlock_limits:
  assumes "parseHeaderValueBlock f rf lib sid s = (Inr h, s')"
  shows "header_limits (unat (maxHeaders_of f)) (maxFieldSize_of f) h \<and> forward (rest s) (rest s')"
proof -
  from assms obtain n s1 e where 1: "readU32 rf s = (Inr n, s1)" "\<not> n > maxHeaders_of f"
    "parseHeaders rf lib (maxFieldSize_of f) sid (unat n) [] None s1 = (Inr (h, e), s')"
    by (auto simp: parseHeaderValueBlock_def rbind_Inr_iff split: if_splits option.splits)
  have "header_limits 0 (maxFieldSize_of f) []" by (simp add: header_limits_def)
  from parseHeaders_limits [OF 1(3) this] readU32_full [OF 1(1)] 1(2) show ?thesis
    by (auto simp: header_limits_def not_less word_le_nat_alt intro: forward_trans)
qed

end

interpretation net: full_reader readFull rd_bytes
  by unfold_locales (auto simp: readFull_def forward_def split: if_splits)

text \<open>
  The zlib reader: \<open>io.ReadFull\<close> over it gives the bytes asked for, and it reads the
  connection forward, when it is made too.
\<close>

definition zlib_reads :: "('c, 'd) golib \<Rightarrow> bool" where
  "zlib_reads lib = (full_reader (zr_readFull lib) (\<lambda>(d, r, n). rd_bytes r) \<and>
     (\<forall>dict r n x r' n'. zr_new lib dict (r, n) = (x, r', n') \<longrightarrow> forward (rd_bytes r) (rd_bytes r')))"

section \<open>Frames\<close>

text \<open>The framer after a read that took at least \<open>n\<close> bytes: its settings are as they were.\<close>

definition after :: "nat \<Rightarrow> ('c, 'd) framer \<Rightarrow> ('c, 'd) framer \<Rightarrow> bool" where
  "after n f f' = (maxFrameLength f' = maxFrameLength f \<and> maxHeaderFieldSize f' = maxHeaderFieldSize f \<and>
     maxHeaderCount f' = maxHeaderCount f \<and> headerCompressionDisabled f' = headerCompressionDisabled f \<and>
     n + length (rd_bytes (f_r f')) \<le> length (rd_bytes (f_r f)))"

lemma after_refl [simp]: "after 0 f f"
  by (simp add: after_def)

lemma after_trans: "after n f g \<Longrightarrow> after m g h \<Longrightarrow> after (n + m) f h"
  by (simp add: after_def)

lemma after_less: "after n f g \<Longrightarrow> m \<le> n \<Longrightarrow> after m f g"
  by (simp add: after_def)

lemma forward_length: "forward a b \<Longrightarrow> length b \<le> length a"
  by (auto simp: forward_def)

lemma fReadU32_after: "fReadU32 f = (Inr v, f') \<Longrightarrow> after 4 f f'"
  by (auto simp: fReadU32_def onConn_def readU32_def readFull_def after_def rbind_def split: if_splits prod.splits sum.splits)

lemma fReadU8_after: "fReadU8 f = (Inr v, f') \<Longrightarrow> after 1 f f'"
  by (auto simp: fReadU8_def onConn_def readU8_def readFull_def after_def rbind_def split: if_splits prod.splits sum.splits)

lemma readFull_after: "onConn (readFull n) f = (Inr bs, f') \<Longrightarrow> after n f f' \<and> length bs = n"
  by (auto simp: onConn_def readFull_def after_def split: if_splits)

lemma after_limits:
  assumes "after n f f'"
  shows "maxHeaders_of f' = maxHeaders_of f" "maxFieldSize_of f' = maxFieldSize_of f"
    "maxControlFramePayload_of f' = maxControlFramePayload_of f"
  using assms by (simp_all add: after_def maxHeaders_of_def maxFieldSize_of_def maxControlFramePayload_of_def)

lemma uncork_after:
  assumes "zlib_reads lib" "uncorkHeaderDecompressor lib k f = (Inr d, f')"
  shows "after 0 f f'"
proof (cases "headerDecompressor f")
  case None
  obtain x r n where zr: "zr_new lib headerDictionary (f_r f, k) = (x, r, n)" by (metis prod_cases3)
  with assms(1) have "forward (rd_bytes (f_r f)) (rd_bytes r)" unfolding zlib_reads_def by blast
  with None zr assms(2) show ?thesis
    by (auto simp: uncorkHeaderDecompressor_def after_def dest: forward_length split: sum.splits)
qed (use assms(2) in \<open>auto simp: uncorkHeaderDecompressor_def after_def\<close>)

definition limits_of :: "('c, 'd) framer \<Rightarrow> http_header \<Rightarrow> bool" where
  "limits_of f = header_limits (unat (maxHeaders_of f)) (maxFieldSize_of f)"

lemma readHeaderBlock_limits:
  assumes "zlib_reads lib" "readHeaderBlock lib k sid f = (Inr h, f')"
  shows "after 0 f f' \<and> limits_of f h"
proof (cases "headerCompressionDisabled f")
  case True
  obtain x r where p: "parseHeaderValueBlock f readFull lib sid (f_r f) = (x, r)" by fastforce
  with True assms(2) have x: "x = Inr h" "f' = f\<lparr>f_r := r\<rparr>" by (auto simp: readHeaderBlock_def onConn_def)
  from net.parseHeaderValueBlock_limits [of f lib sid "f_r f" h r] p x show ?thesis
    by (auto simp: after_def limits_of_def dest: forward_length)
next
  case False
  with assms(2) obtain d g where u: "uncorkHeaderDecompressor lib (unat k) f = (Inr d, g)" and
    rest: "(case parseHeaderValueBlock g (zr_readFull lib) lib sid (d, f_r g, headerReader_N g) of
          (res, d, r, n) \<Rightarrow>
            (if res = Inl EOF \<and> n = 0 \<or> n \<noteq> 0
             then Inl (SpdyError WrongCompressedPayloadSize 0) else res,
             g\<lparr>headerDecompressor := Some d, f_r := r, headerReader_N := n\<rparr>)) = (Inr h, f')"
    by (auto simp: readHeaderBlock_def rbind_Inr_iff)
  obtain x d' r n where p: "parseHeaderValueBlock g (zr_readFull lib) lib sid (d, f_r g, headerReader_N g) = (x, d', r, n)"
    by (metis prod_cases4)
  with rest have x: "x = Inr h" "f' = g\<lparr>headerDecompressor := Some d', f_r := r, headerReader_N := n\<rparr>"
    by (auto split: if_splits)
  have "full_reader (zr_readFull lib) (\<lambda>(d, r, n). rd_bytes r)" using assms(1) by (simp add: zlib_reads_def)
  from full_reader.parseHeaderValueBlock_limits [OF this, of g lib sid "(d, f_r g, headerReader_N g)" h "(d', r, n)"] p x
  have "limits_of g h" "forward (rd_bytes (f_r g)) (rd_bytes r)" by (simp_all add: limits_of_def)
  moreover from uncork_after [OF assms(1) u] have "after 0 f g" .
  moreover have "after 0 g f'" using calculation(2) x(2) by (auto simp: after_def dest: forward_length)
  ultimately show ?thesis using after_trans [of 0 f g 0 f'] by (simp add: limits_of_def after_limits)
qed

text \<open>A frame that the decoder may return to a framer with the limits of \<open>f\<close>.\<close>

definition control_ok :: "('c, 'd) framer \<Rightarrow> u16 \<Rightarrow> control_frame_header \<Rightarrow> bool" where
  "control_ok f t h = (cf_frameType h = t \<and> cf_length h \<le> maxControlFramePayload_of f \<and>
     unat (cf_length h) \<le> MaxDataLength)"

definition headers_ok :: "('c, 'd) framer \<Rightarrow> gostring list \<Rightarrow> http_header \<Rightarrow> bool" where
  "headers_ok f invalid h = (limits_of f h \<and> \<not> has_invalid invalid h)"

definition invalid_for :: "stream_id \<Rightarrow> gostring list" where
  "invalid_for sid = (if sid mod 2 = 0 then invalidReqHeaders else invalidRespHeaders)"

definition frame_valid :: "('c, 'd) framer \<Rightarrow> frame \<Rightarrow> bool" where
  "frame_valid f fr = (case fr of
     SynStream x \<Rightarrow> control_ok f TypeSynStream (ss_CFHeader x) \<and> ss_StreamId x \<noteq> 0 \<and> ss_Priority x < 8 \<and>
       headers_ok f invalidReqHeaders (ss_Headers x)
   | SynReply x \<Rightarrow> control_ok f TypeSynReply (sr_CFHeader x) \<and> sr_StreamId x \<noteq> 0 \<and>
       headers_ok f invalidRespHeaders (sr_Headers x)
   | RstStream x \<Rightarrow> control_ok f TypeRstStream (rs_CFHeader x) \<and> rs_StreamId x \<noteq> 0 \<and> rs_Status x \<noteq> 0
   | Settings x \<Rightarrow> control_ok f TypeSettings (st_CFHeader x) \<and>
       8 * length (st_FlagIdValues x) + 4 \<le> unat (cf_length (st_CFHeader x)) \<and>
       list_all (\<lambda>v. sv_Id v < 2 ^ 24) (st_FlagIdValues x)
   | Ping x \<Rightarrow> control_ok f TypePing (pg_CFHeader x) \<and> pg_Id x \<noteq> 0 \<and> cf_Flags (pg_CFHeader x) = 0
   | GoAway x \<Rightarrow> control_ok f TypeGoAway (ga_CFHeader x) \<and> cf_Flags (ga_CFHeader x) = 0 \<and>
       cf_length (ga_CFHeader x) = 8
   | Headers x \<Rightarrow> control_ok f TypeHeaders (hd_CFHeader x) \<and> hd_StreamId x \<noteq> 0 \<and>
       headers_ok f (invalid_for (hd_StreamId x)) (hd_Headers x)
   | WindowUpdate x \<Rightarrow> control_ok f TypeWindowUpdate (wu_CFHeader x) \<and> cf_Flags (wu_CFHeader x) = 0 \<and>
       cf_length (wu_CFHeader x) = 8
   | Data x \<Rightarrow> df_StreamId x \<noteq> 0 \<and> df_StreamId x < 2 ^ 31 \<and> length (df_Data x) \<le> MaxDataLength)"

lemma and_small24: "unat ((w :: u32) AND 0xffffff) \<le> MaxDataLength"
proof -
  have "unat (take_bit 24 w) < 2 ^ 24" unfolding unsigned_take_bit_eq by (rule take_bit_nat_less_exp)
  then show ?thesis by (simp add: and_low24 MaxDataLength_def)
qed

lemma and_small24': "(w :: u32) AND 0xffffff < 2 ^ 24"
  using and_small24 [of w] by (simp add: word_less_nat_alt MaxDataLength_def)

lemma and_small31: "(w :: u32) AND 0x7fffffff < 2 ^ 31"
proof -
  have "unat (take_bit 31 w) < 2 ^ 31" unfolding unsigned_take_bit_eq by (rule take_bit_nat_less_exp)
  then show ?thesis by (simp add: and_low31 word_less_nat_alt)
qed

lemma drop5_small: "drop_bit 5 (p :: u8) < 8"
proof -
  have "unat p < 2 ^ 8" using unsigned_less [of p] by simp
  then show ?thesis by (simp add: word_less_nat_alt drop_bit_eq_div unat_div)
qed

lemmas after_reads = fReadU32_after fReadU8_after

lemma read_RstStream_valid:
  assumes "read_RstStream h f = (Inr x, f')"
  shows "after 8 f f' \<and> rs_CFHeader x = h \<and> rs_StreamId x \<noteq> 0 \<and> rs_Status x \<noteq> 0"
  using assms by (auto simp: read_RstStream_def rbind_Inr_iff split: if_splits
      dest!: after_reads intro: after_trans [of 4 _ _ 4, simplified])

lemma read_settings_valid:
  "read_settings n f = (Inr vs, f') \<Longrightarrow>
     after (8 * n) f f' \<and> length vs = n \<and> list_all (\<lambda>v. sv_Id v < 2 ^ 24) vs"
proof (induction n arbitrary: f vs)
  case (Suc n)
  then obtain w f1 u f2 ws where 1: "fReadU32 f = (Inr w, f1)" "fReadU32 f1 = (Inr u, f2)"
    "read_settings n f2 = (Inr ws, f')" and vs: "vs = \<lparr>sv_Flag = ucast (drop_bit 24 (w AND 0xff000000)), sv_Id = w AND 0xffffff, sv_Value = u\<rparr> # ws"
    by (auto simp: rbind_Inr_iff)
  from after_trans [OF after_trans [OF fReadU32_after [OF 1(1)] fReadU32_after [OF 1(2)]]] Suc.IH [OF 1(3)]
  have "after (8 * Suc n) f f'" by fastforce
  with Suc.IH [OF 1(3)] show ?case by (simp add: vs and_small24' del: settings_flag_id_value.simps) (simp add: and_small24' [simplified])
qed simp

lemma read_Settings_valid:
  assumes "read_Settings h f = (Inr x, f')"
  shows "after 4 f f' \<and> st_CFHeader x = h \<and> 8 * length (st_FlagIdValues x) + 4 \<le> unat (cf_length h) \<and>
     list_all (\<lambda>v. sv_Id v < 2 ^ 24) (st_FlagIdValues x)"
proof -
  from assms obtain n g vs where 1: "fReadU32 f = (Inr n, g)" "\<not> cf_length h < 4" "\<not> n > (cf_length h - 4) div 8"
    "read_settings (unat n) g = (Inr vs, f')" "x = \<lparr>st_CFHeader = h, st_FlagIdValues = vs\<rparr>"
    by (auto simp: read_Settings_def rbind_Inr_iff split: if_splits)
  have "unat n \<le> (unat (cf_length h) - 4) div 8"
    using 1(2,3) by (simp add: not_less word_le_nat_alt unat_div_distrib unat_sub)
  moreover have "4 \<le> unat (cf_length h)" using 1(2) by (simp add: not_less word_le_nat_alt)
  moreover have "after 4 f f'"
    using after_less [OF after_trans [OF fReadU32_after [OF 1(1)], of "8 * unat n" f'], of 4] read_settings_valid [OF 1(4)] by simp
  ultimately show ?thesis using read_settings_valid [OF 1(4)] 1(5) by simp
qed

lemma read_Ping_valid:
  assumes "read_Ping h f = (Inr x, f')"
  shows "after 4 f f' \<and> pg_CFHeader x = h \<and> pg_Id x \<noteq> 0 \<and> cf_Flags h = 0"
  using assms by (auto simp: read_Ping_def rbind_Inr_iff split: if_splits dest!: after_reads)

lemma read_GoAway_valid:
  assumes "read_GoAway h f = (Inr x, f')"
  shows "after 8 f f' \<and> ga_CFHeader x = h \<and> cf_Flags h = 0 \<and> cf_length h = 8"
  using assms by (auto simp: read_GoAway_def rbind_Inr_iff split: if_splits
      dest!: after_reads intro: after_trans [of 4 _ _ 4, simplified])

lemma read_WindowUpdate_valid:
  assumes "read_WindowUpdate h f = (Inr x, f')"
  shows "after 8 f f' \<and> wu_CFHeader x = h \<and> cf_Flags h = 0 \<and> cf_length h = 8"
  using assms by (auto simp: read_WindowUpdate_def rbind_Inr_iff split: if_splits
      dest!: after_reads intro: after_trans [of 4 _ _ 4, simplified])

lemma readSynStream_valid:
  assumes "zlib_reads lib" "readSynStreamFrame lib h f = (Inr x, f')"
  shows "after 4 f f' \<and> ss_CFHeader x = h \<and> ss_StreamId x \<noteq> 0 \<and> ss_Priority x < 8 \<and>
     headers_ok f invalidReqHeaders (ss_Headers x)"
proof -
  from assms(2) obtain sid f1 assoc f2 prio f3 slot f4 hdrs where
    1: "fReadU32 f = (Inr sid, f1)" "fReadU32 f1 = (Inr assoc, f2)" "fReadU8 f2 = (Inr prio, f3)"
      "fReadU8 f3 = (Inr slot, f4)" "readHeaderBlock lib (cf_length h - 10) sid f4 = (Inr hdrs, f')"
      "\<not> has_invalid invalidReqHeaders hdrs" "sid \<noteq> 0"
    and x: "x = \<lparr>ss_CFHeader = h, ss_StreamId = sid, ss_AssociatedToStreamId = assoc,
                ss_Priority = drop_bit 5 prio, ss_Slot = slot, ss_Headers = hdrs\<rparr>"
    by (auto simp: readSynStreamFrame_def rbind_Inr_iff Let_def split: if_splits)
  have a: "after 10 f f4"
    using after_trans [OF after_trans [OF after_trans [OF fReadU32_after [OF 1(1)] fReadU32_after [OF 1(2)]]
      fReadU8_after [OF 1(3)]] fReadU8_after [OF 1(4)]] by simp
  from readHeaderBlock_limits [OF assms(1) 1(5)] have b: "after 0 f4 f'" "limits_of f4 hdrs" by simp_all
  from after_less [OF after_trans [OF a b(1)], of 4] b(2) 1(6,7) show ?thesis
    by (simp add: x headers_ok_def drop5_small limits_of_def after_limits [OF a])
qed

lemma reply_block_valid:
  assumes "zlib_reads lib" "fReadU32 f = (Inr sid, g)" "readHeaderBlock lib k sid g = (Inr hdrs, f')"
  shows "after 4 f f' \<and> limits_of f hdrs"
proof -
  have a: "after 4 f g" by (rule fReadU32_after [OF assms(2)])
  from readHeaderBlock_limits [OF assms(1,3)] after_trans [OF a] show ?thesis
    by (fastforce simp: limits_of_def after_limits [OF a])
qed

lemma readSynReply_valid:
  assumes "zlib_reads lib" "readSynReplyFrame lib h f = (Inr x, f')"
  shows "after 4 f f' \<and> sr_CFHeader x = h \<and> sr_StreamId x \<noteq> 0 \<and> headers_ok f invalidRespHeaders (sr_Headers x)"
  using assms(2)
  by (auto simp: readSynReplyFrame_def rbind_Inr_iff headers_ok_def split: if_splits
      dest!: reply_block_valid [OF assms(1)])

lemma readHeadersFrame_valid:
  assumes "zlib_reads lib" "readHeadersFrame lib h f = (Inr x, f')"
  shows "after 4 f f' \<and> hd_CFHeader x = h \<and> hd_StreamId x \<noteq> 0 \<and>
     headers_ok f (invalid_for (hd_StreamId x)) (hd_Headers x)"
proof -
  from assms(2) obtain sid g hdrs where 1: "fReadU32 f = (Inr sid, g)"
    "readHeaderBlock lib (cf_length h - 4) sid g = (Inr hdrs, f')" "\<not> has_invalid (invalid_for sid) hdrs" "sid \<noteq> 0"
    and x: "x = \<lparr>hd_CFHeader = h, hd_StreamId = sid, hd_Headers = hdrs\<rparr>"
    unfolding readHeadersFrame_def Let_def invalid_for_def [symmetric]
    by (auto simp: rbind_Inr_iff split: if_splits)
  with reply_block_valid [OF assms(1) 1(1,2)] show ?thesis by (simp add: headers_ok_def)
qed

lemma map_res_Inr_iff: "map_res c r = (Inr y, f') \<longleftrightarrow> (\<exists>x. r = (Inr x, f') \<and> y = c x)"
  by (auto simp: map_res_def rbind_Inr_iff)

lemma cframeCtor_valid:
  assumes "zlib_reads lib" "cframeCtor lib (cf_frameType h) = Some rd" "rd h f = (Inr fr, f')"
    "cf_length h \<le> maxControlFramePayload_of f" "unat (cf_length h) \<le> MaxDataLength"
  shows "after 4 f f' \<and> frame_valid f fr"
  using assms(2-5) after_less [of 8 f f' 4]
  by (auto simp: cframeCtor_def map_res_Inr_iff frame_valid_def control_ok_def split: if_splits
      dest!: readSynStream_valid [OF assms(1)] readSynReply_valid [OF assms(1)] readHeadersFrame_valid [OF assms(1)]
        read_RstStream_valid read_Settings_valid read_Ping_valid read_GoAway_valid read_WindowUpdate_valid)

lemma parseControlFrame_valid:
  assumes "zlib_reads lib" "parseControlFrame lib v t f = (Inr fr, f')"
  shows "after 4 f f' \<and> frame_valid f fr"
proof -
  from assms(2) obtain w g rd where 1: "fReadU32 f = (Inr w, g)" "\<not> w AND 0xffffff > maxControlFramePayload_of g"
    "cframeCtor lib t = Some rd"
    "rd \<lparr>cf_version = v, cf_frameType = t, cf_Flags = ucast (drop_bit 24 (w AND 0xff000000)), cf_length = w AND 0xffffff\<rparr> g = (Inr fr, f')"
    by (auto simp: parseControlFrame_def rbind_Inr_iff Let_def split: if_splits option.splits)
  from fReadU32_after [OF 1(1)] have a: "after 4 f g" .
  have "after 4 g f' \<and> frame_valid g fr"
    by (rule cframeCtor_valid [of lib "\<lparr>cf_version = v, cf_frameType = t,
        cf_Flags = ucast (drop_bit 24 (w AND 0xff000000)), cf_length = w AND 0xffffff\<rparr>" rd, OF assms(1) _ 1(4)])
      (use 1(2,3) and_small24 [of w] in \<open>simp_all add: not_less\<close>)
  with a after_less [OF after_trans [OF a], of 4 f' 4] show ?thesis
    by (auto simp: frame_valid_def control_ok_def headers_ok_def limits_of_def after_limits [OF a] split: frame.splits)
qed

lemma ReadFrame_valid_after:
  assumes "zlib_reads lib" "ReadFrame lib f = (Inr fr, f')"
  shows "after 8 f f' \<and> frame_valid f fr"
proof -
  from assms(2) obtain w g where w: "fReadU32 f = (Inr w, g)" and
    r: "(if w AND 0x80000000 \<noteq> 0
     then parseControlFrame lib (ucast (drop_bit 16 w AND 0x7fff)) (ucast (w AND 0xffff)) g
     else map_res Data (parseDataFrame (w AND 0x7fffffff) g)) = (Inr fr, f')"
    by (auto simp: ReadFrame_def rbind_Inr_iff)
  from fReadU32_after [OF w] have a: "after 4 f g" .
  have "after 4 g f' \<and> frame_valid g fr"
  proof (cases "w AND 0x80000000 \<noteq> 0")
    case True
    with r parseControlFrame_valid [OF assms(1)] show ?thesis by simp
  next
    case False
    with r obtain u g2 bs where 1: "fReadU32 g = (Inr u, g2)" "onConn (readFull (unat (u AND 0xffffff))) g2 = (Inr bs, f')"
      "w AND 0x7fffffff \<noteq> 0"
      "fr = Data \<lparr>df_StreamId = w AND 0x7fffffff, df_Flags = ucast (drop_bit 24 u), df_Data = bs\<rparr>"
      by (auto simp: map_res_Inr_iff parseDataFrame_def rbind_Inr_iff Let_def split: if_splits)
    from after_less [OF after_trans [OF fReadU32_after [OF 1(1)]], of _ f' 4] readFull_after [OF 1(2)] 1(3) and_small24 [of u] and_small31 [of w]
    show ?thesis by (auto simp: 1(4) frame_valid_def)
  qed
  with after_trans [OF a, of 4 f'] show ?thesis
    by (auto simp: frame_valid_def control_ok_def headers_ok_def limits_of_def after_limits [OF a] split: frame.splits)
qed

section \<open>Every frame is well-formed\<close>


lemma id_zlib_reads: "zlib_reads id_lib"
proof -
  have "full_reader (zr_readFull id_lib) (\<lambda>(d, r, n). rd_bytes r)"
    by unfold_locales (auto simp: id_lib_def readFull_def forward_def split: if_splits prod.splits)
  then show ?thesis by (auto simp: zlib_reads_def) (auto simp: id_lib_def)
qed

definition ex_reply_bytes :: "byte list" where
  "ex_reply_bytes = [0x80, 3, 0, 2, 0, 0, 0, 18, 0, 0, 0, 1, 0, 0, 0, 1, 0, 0, 0, 1, 97, 0, 0, 0, 1, 98]"



section \<open>Reading ends\<close>

lemma read_frames_takes:
  "zlib_reads lib \<Longrightarrow> read_frames lib n f = (Inr frs, f') \<Longrightarrow> 8 * n \<le> length (rd_bytes (f_r f))"
proof (induction n arbitrary: f frs)
  case (Suc n)
  from Suc.prems(2) obtain fr g frs' where 1: "ReadFrame lib f = (Inr fr, g)" "read_frames lib n g = (Inr frs', f')"
    by (auto simp: rbind_Inr_iff)
  from ReadFrame_valid_after [OF Suc.prems(1) 1(1)] Suc.IH [OF Suc.prems(1) 1(2)] show ?case by (simp add: after_def)
qed simp

text \<open>
  C33: A read loop ends: every frame takes at least the eight bytes of its header from the
  connection, so after at most an eighth as many frames as there are bytes \<open>ReadFrame\<close> returns an
  error, whatever the bytes are.
\<close>

theorem reading_ends:
  assumes "zlib_reads lib" "length (rd_bytes (f_r f)) < 8 * n"
  shows "\<exists>err f'. read_frames lib n f = (Inl err, f')"
proof -
  obtain x f' where r: "read_frames lib n f = (x, f')" by fastforce
  with read_frames_takes [OF assms(1)] assms(2) show ?thesis by (cases x) fastforce+
qed

theorem reading_ends_witness:
  "\<exists>err f'. read_frames id_lib 4 (ex_framer (ex_reader ex_reply_bytes)) = (Inl err, f')"
  using reading_ends [OF id_zlib_reads, of "ex_framer (ex_reader ex_reply_bytes)" 4]
  by (simp add: ex_framer_def ex_reader_def ex_reply_bytes_def)

section \<open>Frames too long, and lengths not looked at\<close>

text \<open>
  C34: A control frame longer than the limit, of any type, is refused without being taken apart:
  exactly its header and its payload are skipped, nothing else of the framer changes, and the next
  frame can be read.
\<close>

theorem oversize_frame_skipped:
  assumes "f_r f = \<lparr>rd_bytes = concat (header_chunks h) @ payload @ rest, rd_end = e\<rparr>"
    "take_bit 24 (cf_length h) = cf_length h" "length payload = unat (cf_length h)"
    "maxControlFramePayload_of f < cf_length h"
  shows "ReadFrame lib f = (Inl (SpdyError InvalidControlFrame 0), f\<lparr>f_r := \<lparr>rd_bytes = rest, rd_end = e\<rparr>\<rparr>)"
proof -
  have "maxControlFramePayload_of (f\<lparr>f_r := x\<rparr>) = maxControlFramePayload_of f" for x
    by (simp add: maxControlFramePayload_of_def)
  with assms show ?thesis
    by (simp add: ReadFrame_def parseControlFrame_def concat_header_chunks codec_simps ctl_word_control
        and_low24 pack24_low Let_def onConn_def discardN_def)
qed

definition ex_tight :: "byte list \<Rightarrow> (unit, unit) framer" where
  "ex_tight bs = (ex_framer (ex_reader bs))\<lparr>maxFrameLength := 3\<rparr>"

definition ex_ping_header :: "u32 \<Rightarrow> control_frame_header" where
  "ex_ping_header len = \<lparr>cf_version = Version, cf_frameType = TypePing, cf_Flags = 0, cf_length = len\<rparr>"

theorem oversize_frame_skipped_witness:
  "ReadFrame id_lib (ex_tight (concat (header_chunks (ex_ping_header 4)) @ [0, 0, 0, 7] @ [1, 2])) =
     (Inl (SpdyError InvalidControlFrame 0), ex_tight [1, 2])"
  using oversize_frame_skipped [of "ex_tight (concat (header_chunks (ex_ping_header 4)) @ [0, 0, 0, 7] @ [1, 2])"
      "ex_ping_header 4" "[0, 0, 0, 7]" "[1, 2]" EOF id_lib]
  by (simp add: ex_tight_def ex_framer_def ex_reader_def ex_ping_header_def maxControlFramePayload_of_def take_bit_eq_mod
      del: append.simps concat.simps)

text \<open>
  C35: The length of a \<open>PING\<close> is not looked at: whatever length (within the limit) its header
  names, four bytes are taken for it, and the bytes that follow, which the sender declared to be part
  of this frame, are read as the next one.
\<close>

theorem ping_length_ignored:
  assumes "f_r f = \<lparr>rd_bytes = concat (header_chunks h) @ be32 i @ rest, rd_end = e\<rparr>"
    "cf_version h = Version" "cf_frameType h = TypePing" "cf_Flags h = 0" "take_bit 24 (cf_length h) = cf_length h"
    "cf_length h \<le> maxControlFramePayload_of f" "i \<noteq> 0"
  shows "ReadFrame lib f = (Inr (Ping \<lparr>pg_CFHeader = h, pg_Id = i\<rparr>), f\<lparr>f_r := \<lparr>rd_bytes = rest, rd_end = e\<rparr>\<rparr>)"
proof -
  have "cframeCtor lib (cf_frameType h) = Some (\<lambda>h f. map_res Ping (read_Ping h f))"
    using assms(3) by (simp add: cframeCtor_def frame_type_defs)
  from ReadFrame_control [OF assms(1,2,5,6) this] assms(4,7) show ?thesis by (simp add: read_Ping_def codec_simps)
qed

theorem ping_length_ignored_witness:
  "ReadFrame id_lib (ex_framer (ex_reader (concat (header_chunks (ex_ping_header 9)) @ be32 7 @ [1, 2, 3, 4, 5]))) =
     (Inr (Ping \<lparr>pg_CFHeader = ex_ping_header 9, pg_Id = 7\<rparr>), ex_framer (ex_reader [1, 2, 3, 4, 5]))"
  using ping_length_ignored [of "ex_framer (ex_reader (concat (header_chunks (ex_ping_header 9)) @ be32 7 @ [1, 2, 3, 4, 5]))"
      "ex_ping_header 9" 7 "[1, 2, 3, 4, 5]" EOF id_lib]
  by (simp add: ex_framer_def ex_reader_def ex_ping_header_def maxControlFramePayload_of_def MaxDataLength_def take_bit_eq_mod
      del: append.simps concat.simps)

section \<open>Header names sent twice\<close>





section \<open>A frame half written\<close>

text \<open>
  C37: \<open>WriteFrame\<close> of a \<open>RST_STREAM\<close> with status 0 fails, but only after it has put out the
  header, with the length of a whole frame, and the stream id: twelve bytes of a frame of sixteen
  are on the connection when the error is returned.
\<close>

theorem rst_status_zero_half_written:
  assumes "wr_fault (f_w f) = None" "rs_StreamId fr \<noteq> 0" "rs_Status fr = 0"
  shows "\<exists>f' fr'. WriteFrame lib f (RstStream fr) =
       (Some (SpdyError InvalidControlFrame (rs_StreamId fr)), f', RstStream fr') \<and>
     wr_out (f_w f') = wr_out (f_w f) @ [0x80, 3, 0, 3, 0, 0, 0, 8] @ be32 (rs_StreamId fr)"
proof -
  let ?h = "\<lparr>cf_version = Version, cf_frameType = TypeRstStream, cf_Flags = 0, cf_length = 8\<rparr>"
  have "concat (header_chunks ?h) = [0x80, 3, 0, 3, 0, 0, 0, 8]"
    by (simp add: header_chunks_def pack24_def be16_def be32_def Version_def TypeRstStream_def)
  with assms show ?thesis by (simp add: write_RstStream_def Let_def res_simps)
qed

theorem rst_status_zero_half_written_witness:
  "\<exists>f' fr'. WriteFrame id_lib (ex_framer (ex_reader [])) (RstStream \<lparr>rs_CFHeader = ex_ping_header 0, rs_StreamId = 5, rs_Status = 0\<rparr>) =
       (Some (SpdyError InvalidControlFrame 5), f', RstStream fr') \<and>
     wr_out (f_w f') = [0x80, 3, 0, 3, 0, 0, 0, 8, 0, 0, 0, 5]"
  using rst_status_zero_half_written [of "ex_framer (ex_reader [])" "\<lparr>rs_CFHeader = ex_ping_header 0, rs_StreamId = 5, rs_Status = 0\<rparr>" id_lib]
  by (simp add: ex_framer_def ex_writer_def be32_def del: WriteFrame.simps)

end
