(* ===== verification/Go_Heap.thy ===== *)
theory Go_Heap
  imports Prelude "HOL-Library.Multiset"
begin

text \<open>
  Go's \<^verbatim>\<open>container/heap\<close>: a binary heap on a slice.  \<open>lss h i j\<close> is the client's
  \<open>Less\<close> method on the slice \<open>h\<close>.  The locale \<open>heap_interface\<close> states what the
  client promises and proves, once, that the operations keep the heap in order and its contents.
\<close>

section \<open>The operations\<close>

type_synonym 'a less_fun = "'a list \<Rightarrow> nat \<Rightarrow> nat \<Rightarrow> bool"

definition swap_at :: "nat \<Rightarrow> nat \<Rightarrow> 'a list \<Rightarrow> 'a list" where
  "swap_at i j h = h[i := h ! j, j := h ! i]"

text \<open>
  The loop of \<open>up\<close> ends at the root: Go's \<open>(0 - 1) / 2\<close> is 0, the case \<open>i == j\<close>.
\<close>

function heap_up :: "'a less_fun \<Rightarrow> nat \<Rightarrow> 'a list \<Rightarrow> 'a list" where
  "heap_up lss j h =
     (if j = 0 then h
      else let i = (j - 1) div 2 in
        if \<not> lss h j i then h else heap_up lss i (swap_at i j h))"
  by pat_completeness auto
termination by (relation "measure (\<lambda>(lss, j, h). j)") auto

definition min_child :: "'a less_fun \<Rightarrow> nat \<Rightarrow> nat \<Rightarrow> 'a list \<Rightarrow> nat" where
  "min_child lss i n h =
     (let j1 = 2 * i + 1; j2 = j1 + 1 in if j2 < n \<and> lss h j2 j1 then j2 else j1)"

function heap_down :: "'a less_fun \<Rightarrow> nat \<Rightarrow> nat \<Rightarrow> 'a list \<Rightarrow> 'a list" where
  "heap_down lss i n h =
     (if 2 * i + 1 \<ge> n then h
      else let j = min_child lss i n h in
        if \<not> lss h j i then h else heap_down lss j n (swap_at i j h))"
  by pat_completeness auto
termination by (relation "measure (\<lambda>(lss, i, n, h). n - i)") (auto simp: min_child_def Let_def)

declare heap_up.simps [simp del] heap_down.simps [simp del]

definition heap_Push :: "'a less_fun \<Rightarrow> 'a \<Rightarrow> 'a list \<Rightarrow> 'a list" where
  "heap_Push lss x h = heap_up lss (length (h @ [x]) - 1) (h @ [x])"

text \<open>\<open>Init\<close> sifts down every element that has a child, from the last one.\<close>

definition heap_Init :: "'a less_fun \<Rightarrow> 'a list \<Rightarrow> 'a list" where
  "heap_Init lss h = (let n = length h in fold (\<lambda>i h. heap_down lss i n h) (rev [0..<n div 2]) h)"

text \<open>On an empty heap the swap is out of range: the panic is \<open>None\<close>.\<close>

definition heap_Pop :: "'a less_fun \<Rightarrow> 'a list \<Rightarrow> ('a \<times> 'a list) option" where
  "heap_Pop lss h =
     (if h = [] then None
      else let n = length h - 1; h = heap_down lss 0 n (swap_at 0 n h) in Some (h ! n, take n h))"

lemma length_swap_at [simp]: "length (swap_at i j h) = length h"
  by (simp add: swap_at_def)

lemma nth_swap_at: "i < length h \<Longrightarrow> j < length h \<Longrightarrow> k < length h \<Longrightarrow>
    swap_at i j h ! k = (if k = j then h ! i else if k = i then h ! j else h ! k)"
  by (simp add: swap_at_def nth_list_update)

lemma mset_swap_at: "i < length h \<Longrightarrow> j < length h \<Longrightarrow> mset (swap_at i j h) = mset h"
  unfolding swap_at_def by (rule mset_swap)

lemma min_child_bounds:
  assumes "2 * i + 1 < n"
  shows "min_child lss i n h < n" "i < min_child lss i n h"
    "(min_child lss i n h - 1) div 2 = i" "0 < min_child lss i n h"
  using assms by (auto simp: min_child_def Let_def)

lemma heap_up_contents:
  "j < length h \<Longrightarrow> length (heap_up lss j h) = length h \<and> mset (heap_up lss j h) = mset h"
proof (induction lss j h rule: heap_up.induct)
  case (1 lss j h)
  then show ?case
    by (subst (1 2) heap_up.simps) (simp add: Let_def mset_swap_at)
qed

lemma heap_down_contents:
  "i < n \<Longrightarrow> n \<le> length h \<Longrightarrow>
   length (heap_down lss i n h) = length h \<and> mset (heap_down lss i n h) = mset h \<and>
   drop n (heap_down lss i n h) = drop n h"
proof (induction lss i n h rule: heap_down.induct)
  case (1 lss i n h)
  show ?case
  proof (cases "2 * i + 1 < n \<and> lss h (min_child lss i n h) i")
    case True
    let ?j = "min_child lss i n h"
    from True have j: "?j < n" "i < ?j" using min_child_bounds by blast+
    from 1 True j have "length (heap_down lss ?j n (swap_at i ?j h)) = length h \<and>
      mset (heap_down lss ?j n (swap_at i ?j h)) = mset (swap_at i ?j h) \<and>
      drop n (heap_down lss ?j n (swap_at i ?j h)) = drop n (swap_at i ?j h)" by auto
    moreover have "mset (swap_at i ?j h) = mset h" using 1 j by (intro mset_swap_at) auto
    moreover have "drop n (swap_at i ?j h) = drop n h" using 1 j by (simp add: swap_at_def)
    ultimately show ?thesis using True by (subst (1 2 3) heap_down.simps) (simp add: Let_def)
  next
    case False
    then show ?thesis by (subst (1 2 3) heap_down.simps) (auto simp: Let_def)
  qed
qed

section \<open>The contract\<close>

text \<open>
  What the client's \<open>Less\<close> must be: a comparison of the two elements, by a relation whose
  negation is a total preorder.
\<close>

locale heap_interface =
  fixes lss :: "'a less_fun"
    and lt :: "'a \<Rightarrow> 'a \<Rightarrow> bool"
  assumes less_nth: "i < length h \<Longrightarrow> j < length h \<Longrightarrow> lss h i j = lt (h ! i) (h ! j)"
    and lt_asym: "lt a b \<Longrightarrow> \<not> lt b a"
    and lt_trans_not: "\<not> lt b a \<Longrightarrow> \<not> lt c b \<Longrightarrow> \<not> lt c a"
begin

abbreviation le :: "'a \<Rightarrow> 'a \<Rightarrow> bool" where "le a b \<equiv> \<not> lt b a"

text \<open>The first \<open>n\<close> elements are in heap order: no element is less than its parent.\<close>

definition heap_ordered :: "nat \<Rightarrow> 'a list \<Rightarrow> bool" where
  "heap_ordered n h = (\<forall>k<n. 0 < k \<longrightarrow> le (h ! ((k - 1) div 2)) (h ! k))"

definition above :: "nat \<Rightarrow> 'a list \<Rightarrow> bool" where
  "above j h = (\<forall>k<length h. 0 < k \<longrightarrow>
     (k \<noteq> j \<longrightarrow> le (h ! ((k - 1) div 2)) (h ! k)) \<and>
     (0 < j \<and> (k - 1) div 2 = j \<longrightarrow> le (h ! ((j - 1) div 2)) (h ! k)))"

definition below :: "nat \<Rightarrow> nat \<Rightarrow> 'a list \<Rightarrow> bool" where
  "below i n h = (\<forall>k<n. 0 < k \<longrightarrow>
     ((k - 1) div 2 \<noteq> i \<longrightarrow> le (h ! ((k - 1) div 2)) (h ! k)) \<and>
     (0 < i \<and> (k - 1) div 2 = i \<longrightarrow> le (h ! ((i - 1) div 2)) (h ! k)))"

lemma le_refl: "le a a" using lt_asym by blast
lemma lt_le: "lt a b \<Longrightarrow> le a b" by (rule lt_asym)
lemma le_trans: "le a b \<Longrightarrow> le b c \<Longrightarrow> le a c" by (rule lt_trans_not)

lemma root_least: "heap_ordered n h \<Longrightarrow> k < n \<Longrightarrow> le (h ! 0) (h ! k)"
proof (induction k rule: less_induct)
  case (less k)
  show ?case
  proof (cases "k = 0")
    case False
    with less have "le (h ! 0) (h ! ((k - 1) div 2))" "le (h ! ((k - 1) div 2)) (h ! k)"
      by (auto simp: heap_ordered_def intro!: less.IH)
    then show ?thesis by (rule le_trans)
  qed (simp add: le_refl)
qed

lemma above_swap:
  assumes ab: "above j h" and j: "j < length h" "0 < j" and lt: "lt (h ! j) (h ! ((j - 1) div 2))"
  shows "above ((j - 1) div 2) (swap_at ((j - 1) div 2) j h)"
proof -
  define i where "i = (j - 1) div 2"
  let ?h = "swap_at i j h"
  have i: "i < length h" "i < j" using j by (auto simp: i_def)
  have lt': "lt (h ! j) (h ! i)" using lt by (simp add: i_def)
  have nth: "?h ! k = (if k = j then h ! i else if k = i then h ! j else h ! k)" if "k < length h" for k
    using that i j by (simp add: nth_swap_at)
  have old: "le (h ! ((k - 1) div 2)) (h ! k)" if "k < length h" "0 < k" "k \<noteq> j" for k
    using ab that by (simp add: above_def)
  have kid: "le (h ! i) (h ! k)" if "k < length h" "0 < k" "(k - 1) div 2 = j" for k
    using ab that j by (simp add: above_def i_def)
  have "above i ?h"
    unfolding above_def length_swap_at
  proof (intro allI impI conjI)
    fix k assume k: "k < length h" "0 < k" "k \<noteq> i"
    define p where "p = (k - 1) div 2"
    then have p: "p < length h" using k by linarith
    have "le (?h ! p) (?h ! k)"
    proof (cases "k = j")
      case True
      then have "p = i" by (simp add: p_def i_def)
      with True show ?thesis using lt' i j by (simp add: nth lt_le)
    next
      case False
      then have o: "le (h ! p) (h ! k)" using old [of k] k by (simp add: p_def)
      from kid [of k] k have "p = j \<Longrightarrow> le (h ! i) (h ! k)" by (simp add: p_def)
      moreover have "p = i \<Longrightarrow> le (h ! j) (h ! k)" using o le_trans [OF lt_le [OF lt']] by simp
      ultimately show ?thesis using False k p o by (simp add: nth)
    qed
    then show "le (?h ! ((k - 1) div 2)) (?h ! k)" by (simp add: p_def)
  next
    fix k assume k: "k < length h" "0 < k" "0 < i \<and> (k - 1) div 2 = i"
    define q where "q = (i - 1) div 2"
    have ik: "q < i" "i < k" using k unfolding q_def by linarith+
    have up: "le (h ! q) (h ! i)" using old [of i] k i by (simp add: q_def)
    have "le (?h ! q) (?h ! k)"
    proof (cases "k = j")
      case True
      then show ?thesis using up ik i j by (simp add: nth)
    next
      case False
      then have "le (h ! i) (h ! k)" using old [of k] k by simp
      with up have "le (h ! q) (h ! k)" by (rule le_trans)
      then show ?thesis using False ik i k by (simp add: nth)
    qed
    then show "le (?h ! ((i - 1) div 2)) (?h ! k)" by (simp add: q_def)
  qed
  then show ?thesis by (simp add: i_def)
qed

lemma above_stop:
  assumes "above j h" "j < length h" "j = 0 \<or> le (h ! ((j - 1) div 2)) (h ! j)"
  shows "heap_ordered (length h) h"
  using assms by (auto simp: above_def heap_ordered_def)

lemma heap_up_ordered: "above j h \<Longrightarrow> j < length h \<Longrightarrow> heap_ordered (length h) (heap_up lss j h)"
proof (induction j arbitrary: h rule: less_induct)
  case (less j)
  let ?i = "(j - 1) div 2"
  show ?case
  proof (cases "j = 0 \<or> le (h ! ?i) (h ! j)")
    case True
    with less.prems show ?thesis
      by (subst heap_up.simps) (auto simp: Let_def less_nth intro: above_stop)
  next
    case False
    with less.prems have "above ?i (swap_at ?i j h)" by (intro above_swap) auto
    with less.IH [of ?i "swap_at ?i j h"] False less.prems show ?thesis
      by (subst heap_up.simps) (auto simp: Let_def less_nth)
  qed
qed


lemma min_child_least:
  assumes "n \<le> length h" "2 * i + 1 < n" "k < n" "0 < k" "(k - 1) div 2 = i"
  shows "le (h ! min_child lss i n h) (h ! k)"
proof -
  have "k = 2 * i + 1 \<or> k = 2 * i + 2" using assms by linarith
  then show ?thesis using assms
    by (auto simp: min_child_def Let_def less_nth le_refl lt_le)
qed

lemma below_swap:
  assumes be: "below i n h" and n: "n \<le> length h" "2 * i + 1 < n"
    and lt: "lt (h ! min_child lss i n h) (h ! i)"
  shows "below (min_child lss i n h) n (swap_at i (min_child lss i n h) h)"
proof -
  define j where "j = min_child lss i n h"
  let ?h = "swap_at i j h"
  have j: "j < n" "i < j" "(j - 1) div 2 = i" "0 < j"
    unfolding j_def using min_child_bounds [OF n(2)] by blast+
  have nth: "?h ! k = (if k = j then h ! i else if k = i then h ! j else h ! k)" if "k < n" for k
    using that j n by (intro nth_swap_at) auto
  have least: "le (h ! j) (h ! k)" if "k < n" "0 < k" "(k - 1) div 2 = i" for k
    unfolding j_def using n that by (rule min_child_least)
  have old: "le (h ! ((k - 1) div 2)) (h ! k)" if "k < n" "0 < k" "(k - 1) div 2 \<noteq> i" for k
    using be that by (simp add: below_def)
  have up: "le (h ! ((i - 1) div 2)) (h ! j)" if "0 < i"
    using be that j by (simp add: below_def)
  have "below j n ?h"
    unfolding below_def
  proof (intro allI impI conjI)
    fix k assume k: "k < n" "0 < k" "(k - 1) div 2 \<noteq> j"
    define p where "p = (k - 1) div 2"
    have p: "p < n" "p \<noteq> k" "p \<noteq> j" using k unfolding p_def by linarith+
    have "le (?h ! p) (?h ! k)"
    proof (cases "p = i")
      case True
      then have "le (h ! j) (h ! k)" using least [of k] k by (simp add: p_def)
      moreover have "le (h ! j) (h ! i)" using lt lt_le by (simp add: j_def)
      moreover have "k \<noteq> i" using True p by blast
      ultimately show ?thesis using True p k j by (simp add: nth)
    next
      case False
      then have "le (h ! p) (h ! k)" using old [of k] k by (simp add: p_def)
      moreover have "k = i \<Longrightarrow> le (h ! p) (h ! j)" using up k by (simp add: p_def)
      moreover have "k \<noteq> j" using False j by (auto simp: p_def)
      ultimately show ?thesis using False p k by (simp add: nth)
    qed
    then show "le (?h ! ((k - 1) div 2)) (?h ! k)" by (simp add: p_def)
  next
    fix k assume k: "k < n" "0 < k" "0 < j \<and> (k - 1) div 2 = j"
    then have jk: "j < k" "j \<noteq> i" "k \<noteq> i" using j by linarith+
    from old [of k] k jk have "le (h ! j) (h ! k)" by simp
    moreover have "(j - 1) div 2 = i" "i < n" using j by linarith+
    ultimately show "le (?h ! ((j - 1) div 2)) (?h ! k)" using k jk j by (simp add: nth)
  qed
  then show ?thesis by (simp add: j_def)
qed

lemma below_stop:
  assumes "below i n h" "n \<le> length h" "2 * i + 1 < n \<Longrightarrow> le (h ! i) (h ! min_child lss i n h)"
  shows "heap_ordered n h"
  unfolding heap_ordered_def
proof (intro allI impI)
  fix k assume k: "k < n" "0 < k"
  show "le (h ! ((k - 1) div 2)) (h ! k)"
  proof (cases "(k - 1) div 2 = i")
    case True
    with k have n: "2 * i + 1 < n" by linarith
    with assms min_child_least [OF assms(2) n k True] le_trans True show ?thesis by blast
  next
    case False
    with k assms(1) show ?thesis by (simp add: below_def)
  qed
qed

lemma heap_down_ordered: "below i n h \<Longrightarrow> i < n \<Longrightarrow> n \<le> length h \<Longrightarrow> heap_ordered n (heap_down lss i n h)"
proof (induction "n - i" arbitrary: i h rule: less_induct)
  case less
  let ?j = "min_child lss i n h"
  show ?case
  proof (cases "2 * i + 1 < n \<and> lt (h ! ?j) (h ! i)")
    case True
    then have j: "?j < n" "i < ?j" using min_child_bounds by blast+
    from True less.prems have "below ?j n (swap_at i ?j h)" by (intro below_swap) auto
    with less.hyps [of ?j "swap_at i ?j h"] True less.prems j show ?thesis
      by (subst heap_down.simps) (auto simp: Let_def less_nth)
  next
    case False
    from False less.prems have "heap_ordered n h" by (intro below_stop) auto
    with False less.prems min_child_bounds(1) [of i n lss h] show ?thesis
      by (subst heap_down.simps) (auto simp: Let_def less_nth)
  qed
qed

text \<open>The two operations: order and contents.\<close>

theorem heap_Push_ok:
  assumes "heap_ordered (length h) h"
  shows "heap_ordered (length (heap_Push lss x h)) (heap_Push lss x h)"
    "mset (heap_Push lss x h) = add_mset x (mset h)" "length (heap_Push lss x h) = Suc (length h)"
proof -
  have c: "length (heap_Push lss x h) = length (h @ [x])" "mset (heap_Push lss x h) = mset (h @ [x])"
    unfolding heap_Push_def using heap_up_contents [of "length (h @ [x]) - 1" "h @ [x]" lss] by auto
  have "(h @ [x]) ! ((k - 1) div 2) = h ! ((k - 1) div 2)" if "k < length h" for k
    using that by (simp add: nth_append) linarith
  then have "above (length h) (h @ [x])"
    using assms by (auto simp: above_def heap_ordered_def nth_append less_Suc_eq)
  from heap_up_ordered [OF this] show "heap_ordered (length (heap_Push lss x h)) (heap_Push lss x h)"
    using c by (simp add: heap_Push_def)
  from c show "mset (heap_Push lss x h) = add_mset x (mset h)" "length (heap_Push lss x h) = Suc (length h)"
    by simp_all
qed

theorem heap_Pop_ok:
  assumes "heap_ordered (length h) h" "h \<noteq> []"
  obtains h' where "heap_Pop lss h = Some (h ! 0, h')" "heap_ordered (length h') h'"
    "mset h = add_mset (h ! 0) (mset h')" "\<forall>y\<in>set h'. le (h ! 0) y"
proof -
  obtain n where n: "length h = Suc n" using assms by (cases "length h") auto
  let ?s = "swap_at 0 n h"
  let ?d = "heap_down lss 0 n ?s"
  have nth: "?s ! k = (if k = n then h ! 0 else if k = 0 then h ! n else h ! k)" if "k < length h" for k
    using that n by (intro nth_swap_at) auto
  have d: "length ?d = length h \<and> mset ?d = mset ?s \<and> drop n ?d = drop n ?s \<and>
      heap_ordered n ?d"
  proof (cases "n = 0")
    case True
    then show ?thesis by (subst (1 2 3 4) heap_down.simps) (simp add: heap_ordered_def)
  next
    case False
    have "below 0 n ?s"
      unfolding below_def
    proof (intro allI impI conjI)
      fix k assume k: "k < n" "0 < k" "(k - 1) div 2 \<noteq> 0"
      define p where "p = (k - 1) div 2"
      from k have p: "p < n" "p \<noteq> 0" unfolding p_def by linarith+
      have "le (h ! p) (h ! k)" using k n assms(1) by (simp add: heap_ordered_def p_def)
      then have "le (?s ! p) (?s ! k)" using k p n by (simp add: nth)
      then show "le (?s ! ((k - 1) div 2)) (?s ! k)" by (simp add: p_def)
    qed simp
    with False heap_down_ordered [of 0 n ?s] heap_down_contents [of 0 n ?s lss] n show ?thesis by simp
  qed
  have ms: "mset ?s = mset h" using n by (intro mset_swap_at) auto
  have dn: "?d ! n = h ! 0"
  proof -
    have "n < length ?d" using d n by simp
    then have "?d ! n = hd (drop n ?d)" by (rule hd_drop_conv_nth [symmetric])
    also have "\<dots> = hd (drop n ?s)" by (rule arg_cong [of _ _ hd]) (use d in blast)
    also have "\<dots> = h ! 0" using n by (simp add: hd_drop_conv_nth nth)
    finally show ?thesis .
  qed
  have split: "take n ?d @ [?d ! n] = ?d"
    using d n by (simp flip: take_Suc_conv_app_nth)
  have m: "mset h = add_mset (h ! 0) (mset (take n ?d))"
    using arg_cong [OF split, of mset] d ms dn by simp
  show thesis
  proof (rule that [of "take n ?d"])
    show "heap_Pop lss h = Some (h ! 0, take n ?d)"
      using assms dn n by (simp add: heap_Pop_def Let_def)
    show "heap_ordered (length (take n ?d)) (take n ?d)"
      using d n by (auto simp: heap_ordered_def)
    show "mset h = add_mset (h ! 0) (mset (take n ?d))" by (rule m)
    show "\<forall>y\<in>set (take n ?d). le (h ! 0) y"
    proof
      fix y assume "y \<in> set (take n ?d)"
      then have "y \<in># mset h" using m by simp
      then obtain k where "k < length h" "y = h ! k" by (auto simp: in_set_conv_nth)
      with root_least [OF assms(1)] show "le (h ! 0) y" by simp
    qed
  qed
qed

end

end
