(* ===== verification/Priority.thy ===== *)
theory Priority
  imports Spdy_Types Go_Heap
begin

text \<open>
  \<^verbatim>\<open>priority.go\<close>: the bounded queue between the reader of a connection and one frame
  worker.  Its operations run under a mutex, so each is one step; a call that would wait on the
  condition variable is \<open>None\<close>, and is tried again when the queue has changed.
\<close>

section \<open>Data\<close>

record prioritized_frame =
  pf_frame :: frame
  pf_priority :: u8
  pf_insertId :: u64

type_synonym frame_queue = "prioritized_frame list"

definition frameQueue_Less :: "prioritized_frame less_fun" where
  "frameQueue_Less fq i j =
     (if pf_priority (fq ! i) = pf_priority (fq ! j)
      then pf_insertId (fq ! i) < pf_insertId (fq ! j)
      else pf_priority (fq ! i) < pf_priority (fq ! j))"

record priority_frame_queue =
  pq_queue :: frame_queue
  pq_size :: nat
  pq_nextInsertId :: u64
  pq_drain :: bool

definition NewPriorityFrameQueue :: "nat \<Rightarrow> priority_frame_queue" where
  "NewPriorityFrameQueue sz =
     \<lparr>pq_queue = heap_Init frameQueue_Less [], pq_size = sz, pq_nextInsertId = 0, pq_drain = False\<rparr>"

definition q_Push :: "frame \<Rightarrow> u8 \<Rightarrow> priority_frame_queue \<Rightarrow> priority_frame_queue option" where
  "q_Push frame priority q =
     (if length (pq_queue q) \<ge> pq_size q then None
      else let pFrame = \<lparr>pf_frame = frame, pf_priority = priority, pf_insertId = pq_nextInsertId q\<rparr>
        in Some (q\<lparr>pq_nextInsertId := pq_nextInsertId q + 1,
                   pq_queue := heap_Push frameQueue_Less pFrame (pq_queue q)\<rparr>))"

text \<open>\<open>Some (None, q)\<close>: the queue is empty and drained, \<open>Pop\<close> returns nil.\<close>

definition q_Pop :: "priority_frame_queue \<Rightarrow> (frame option \<times> priority_frame_queue) option" where
  "q_Pop q =
     (if length (pq_queue q) = 0 then (if pq_drain q then Some (None, q) else None)
      else case heap_Pop frameQueue_Less (pq_queue q) of
        None \<Rightarrow> None
      | Some (pFrame, h) \<Rightarrow> Some (Some (pf_frame pFrame), q\<lparr>pq_queue := h\<rparr>))"

definition q_Drain :: "priority_frame_queue \<Rightarrow> priority_frame_queue" where
  "q_Drain q = q\<lparr>pq_drain := True\<rparr>"

section \<open>The order of the frames\<close>

text \<open>The key \<open>Less\<close> compares by: priority first, insertion next.\<close>

datatype frame_key = Frame_Key (key_priority: u8) (key_insertId: u64)

instantiation frame_key :: linorder
begin

definition less_eq_frame_key :: "frame_key \<Rightarrow> frame_key \<Rightarrow> bool" where
  "less_eq_frame_key a b = (key_priority a < key_priority b \<or>
     key_priority a = key_priority b \<and> key_insertId a \<le> key_insertId b)"

definition less_frame_key :: "frame_key \<Rightarrow> frame_key \<Rightarrow> bool" where
  "less_frame_key a b = (key_priority a < key_priority b \<or>
     key_priority a = key_priority b \<and> key_insertId a < key_insertId b)"

instance
  by standard (auto simp: less_eq_frame_key_def less_frame_key_def frame_key.expand)

end

definition pf_key :: "prioritized_frame \<Rightarrow> frame_key" where
  "pf_key p = Frame_Key (pf_priority p) (pf_insertId p)"

interpretation fq: heap_interface frameQueue_Less "\<lambda>a b. pf_key a < pf_key b"
  by unfold_locales (auto simp: frameQueue_Less_def pf_key_def less_frame_key_def)

definition q_ok :: "priority_frame_queue \<Rightarrow> bool" where
  "q_ok q = (fq.heap_ordered (length (pq_queue q)) (pq_queue q) \<and>
     inj_on pf_insertId (set (pq_queue q)) \<and> distinct (pq_queue q) \<and>
     (\<forall>p\<in>set (pq_queue q). pf_insertId p < pq_nextInsertId q) \<and>
     length (pq_queue q) \<le> pq_size q)"

section \<open>The abstract queue\<close>

text \<open>
  What the queue promises: the frames in the order of their arrival, each with its priority.
  \<open>Pop\<close> takes the earliest of those with the smallest priority number.
\<close>

record spec_queue =
  sq_items :: "(frame \<times> u8) list"
  sq_size :: nat
  sq_drain :: bool

definition take_urgent :: "(frame \<times> u8) list \<Rightarrow> frame \<times> (frame \<times> u8) list" where
  "take_urgent s =
     (let p = Min (set (map snd s));
          earlier = takeWhile (\<lambda>x. snd x \<noteq> p) s; later = dropWhile (\<lambda>x. snd x \<noteq> p) s
      in (fst (hd later), earlier @ tl later))"

definition spec_Push :: "frame \<Rightarrow> u8 \<Rightarrow> spec_queue \<Rightarrow> spec_queue option" where
  "spec_Push fr p s =
     (if length (sq_items s) \<ge> sq_size s then None else Some (s\<lparr>sq_items := sq_items s @ [(fr, p)]\<rparr>))"

definition spec_Pop :: "spec_queue \<Rightarrow> (frame option \<times> spec_queue) option" where
  "spec_Pop s =
     (if sq_items s = [] then (if sq_drain s then Some (None, s) else None)
      else case take_urgent (sq_items s) of (fr, rest) \<Rightarrow> Some (Some fr, s\<lparr>sq_items := rest\<rparr>))"

definition spec_Drain :: "spec_queue \<Rightarrow> spec_queue" where
  "spec_Drain s = s\<lparr>sq_drain := True\<rparr>"

definition q_abs :: "priority_frame_queue \<Rightarrow> spec_queue" where
  "q_abs q = \<lparr>sq_items = map (\<lambda>p. (pf_frame p, pf_priority p)) (sort_key pf_insertId (pq_queue q)),
              sq_size = pq_size q, sq_drain = pq_drain q\<rparr>"

lemma set_of_mset: "mset xs = add_mset x (mset ys) \<Longrightarrow> set xs = insert x (set ys)"
  by (metis set_mset_add_mset_insert set_mset_mset)

lemma distinct_of_mset: "mset xs = add_mset x (mset ys) \<Longrightarrow> distinct xs = (x \<notin> set ys \<and> distinct ys)"
  by (metis distinct.simps(2) mset.simps(2) mset_eq_imp_distinct_iff)

lemma q_Push_ok:
  assumes "q_ok q" "q_Push fr p q = Some q'" "pq_nextInsertId q \<noteq> - 1"
  shows "q_ok q' \<and> spec_Push fr p (q_abs q) = Some (q_abs q')"
proof -
  let ?h = "pq_queue q"
  let ?x = "\<lparr>pf_frame = fr, pf_priority = p, pf_insertId = pq_nextInsertId q\<rparr>"
  let ?h' = "heap_Push frameQueue_Less ?x ?h"
  from assms have q': "q' = q\<lparr>pq_nextInsertId := pq_nextInsertId q + 1, pq_queue := ?h'\<rparr>"
    and room: "length ?h < pq_size q"
    by (auto simp: q_Push_def Let_def split: if_splits)
  from assms(1) have ord: "fq.heap_ordered (length ?h) ?h" and inj: "inj_on pf_insertId (set ?h)"
    and old: "\<forall>y\<in>set ?h. pf_insertId y < pq_nextInsertId q" and dist: "distinct ?h"
    by (auto simp: q_ok_def)
  note ok = fq.heap_Push_ok [OF ord, of ?x]
  have nxt: "pq_nextInsertId q < pq_nextInsertId q + 1"
    using assms(3) by (rule word_less_succ)
  have new: "?x \<notin> set ?h" using old by auto
  have inj': "inj_on pf_insertId (set (?h @ [?x]))"
  proof -
    have "pf_insertId ?x \<notin> pf_insertId ` set ?h" using old by auto
    with inj new show ?thesis by simp
  qed
  have set': "set ?h' = insert ?x (set ?h)" using ok(2) by (rule set_of_mset)
  have "\<forall>y\<in>set ?h'. pf_insertId y < pq_nextInsertId q + 1"
    using old nxt by (auto simp: set' intro: order.strict_trans)
  moreover have "distinct ?h'" using new dist distinct_of_mset [OF ok(2)] by simp
  moreover have "inj_on pf_insertId (set ?h')" using inj' set' by simp
  ultimately have "q_ok q'" using ok(1,3) room by (simp add: q_ok_def q')
  moreover have "sort_key pf_insertId ?h' = sort_key pf_insertId ?h @ [?x]"
  proof (rule sort_key_inj_key_eq)
    show "mset ?h' = mset (sort_key pf_insertId ?h @ [?x])" using ok(2) by simp
    show "inj_on pf_insertId (set ?h')" using inj' set' by simp
    show "sorted (map pf_insertId (sort_key pf_insertId ?h @ [?x]))"
      using old by (auto simp: sorted_append less_imp_le)
  qed
  ultimately show ?thesis using room by (simp add: spec_Push_def q_abs_def q')
qed

lemma take_urgent_split:
  assumes "\<forall>y\<in>set ys. prio < snd y" "\<forall>y\<in>set zs. prio \<le> snd y"
  shows "take_urgent (ys @ (fr, prio) # zs) = (fr, ys @ zs)"
proof -
  have "Min (set (map snd (ys @ (fr, prio) # zs))) = prio"
    using assms by (intro Min_eqI) (auto intro: less_imp_le)
  moreover have "takeWhile (\<lambda>x. snd x \<noteq> prio) (ys @ (fr, prio) # zs) = ys"
    "dropWhile (\<lambda>x. snd x \<noteq> prio) (ys @ (fr, prio) # zs) = (fr, prio) # zs"
    using assms(1) by (auto simp: takeWhile_append dropWhile_append)
  ultimately show ?thesis by (simp add: take_urgent_def Let_def)
qed

lemma q_Pop_ok:
  assumes "q_ok q" "q_Pop q = Some (x, q')"
  shows "q_ok q' \<and> spec_Pop (q_abs q) = Some (x, q_abs q') \<and> pq_nextInsertId q' = pq_nextInsertId q"
proof (cases "pq_queue q = []")
  case True
  with assms show ?thesis by (auto simp: q_Pop_def spec_Pop_def q_abs_def split: if_splits)
next
  case False
  let ?h = "pq_queue q"
  from assms(1) have ord: "fq.heap_ordered (length ?h) ?h" and inj: "inj_on pf_insertId (set ?h)"
    and dist: "distinct ?h" by (auto simp: q_ok_def)
  from fq.heap_Pop_ok [OF ord False] obtain h' where h':
    "heap_Pop frameQueue_Less ?h = Some (?h ! 0, h')" "fq.heap_ordered (length h') h'"
    "mset ?h = add_mset (?h ! 0) (mset h')" "\<forall>y\<in>set h'. \<not> pf_key y < pf_key (?h ! 0)" .
  let ?m = "?h ! 0"
  from assms(2) False h'(1) have x: "x = Some (pf_frame ?m)" "q' = q\<lparr>pq_queue := h'\<rparr>"
    by (auto simp: q_Pop_def)
  have set': "set ?h = insert ?m (set h')" using h'(3) by (rule set_of_mset)
  have dist': "?m \<notin> set h'" "distinct h'" using dist distinct_of_mset [OF h'(3)] by auto
  have len: "length ?h = Suc (length h')" using h'(3) by (metis size_add_mset size_mset)
  have ok: "q_ok q'"
    using assms(1) h'(2) set' dist' len by (auto simp: q_ok_def x(2) inj_on_def)
  let ?s = "sort_key pf_insertId ?h"
  obtain ys zs where s: "?s = ys @ ?m # zs" using set' by (metis insertI1 set_sort split_list)
  have mem: "set ?s = set ?h" by simp
  have rest: "sort_key pf_insertId h' = ys @ zs"
  proof (rule sort_key_inj_key_eq)
    have "mset ?s = add_mset ?m (mset h')" using h'(3) by simp
    then show "mset h' = mset (ys @ zs)" by (simp add: s)
    show "inj_on pf_insertId (set h')" using inj set' by (auto intro: inj_on_subset)
    have "sorted (map pf_insertId ?s)" by simp
    then show "sorted (map pf_insertId (ys @ zs))" by (simp add: s sorted_append)
  qed
  have "sorted (map pf_insertId ?s)" by simp
  then have ord_ids: "\<forall>y\<in>set ys. pf_insertId y \<le> pf_insertId ?m"
    by (simp add: s sorted_append)
  have "distinct ?s" using dist by simp
  then have ne: "?m \<notin> set ys" by (simp add: s)
  have yz: "set ys \<subseteq> set h'" "set zs \<subseteq> set h'" using rest by (metis set_sort set_append Un_upper1 Un_upper2)+
  have yp: "pf_priority ?m < pf_priority y" if "y \<in> set ys" for y
  proof -
    have "pf_insertId y \<noteq> pf_insertId ?m"
      using that inj yz set' ne by (metis inj_on_contraD insertCI subset_iff)
    with ord_ids that have "pf_insertId y < pf_insertId ?m" by (auto simp: order_less_le)
    with h'(4) yz that show ?thesis by (auto simp: pf_key_def less_frame_key_def not_less_iff_gr_or_eq)
  qed
  have zp: "pf_priority ?m \<le> pf_priority y" if "y \<in> set zs" for y
    using h'(4) yz that by (auto simp: pf_key_def less_frame_key_def not_less)
  have "take_urgent (sq_items (q_abs q)) = (pf_frame ?m, map (\<lambda>p. (pf_frame p, pf_priority p)) (ys @ zs))"
    using take_urgent_split [of "map (\<lambda>p. (pf_frame p, pf_priority p)) ys" "pf_priority ?m"
        "map (\<lambda>p. (pf_frame p, pf_priority p)) zs" "pf_frame ?m"] yp zp
    by (simp add: q_abs_def s)
  then show ?thesis using ok False s by (simp add: spec_Pop_def x q_abs_def rest)
qed

end
