(* ===== verification/Priority_Runs.thy ===== *)
theory Priority_Runs
  imports Priority
begin

text \<open>
  Runs of the frame queue: any sequence of calls, with what each caller sees.  The queue
  behaves as its abstract specification; frames of equal priority keep their order; a drained
  queue empties; and no sleeping thread is left behind.
\<close>

section \<open>Runs\<close>

datatype q_op = is_Push: Push_op frame u8 | Pop_op | Drain_op

text \<open>What the caller sees: it waits, the call returns, the call returns a frame or nil.\<close>

datatype q_obs = Waits | Done | Got "frame option"

text \<open>One call, over the push, pop and drain of either queue.\<close>

definition call_with ::
  "(frame \<Rightarrow> u8 \<Rightarrow> 'q \<Rightarrow> 'q option) \<Rightarrow> ('q \<Rightarrow> (frame option \<times> 'q) option) \<Rightarrow> ('q \<Rightarrow> 'q) \<Rightarrow>
   q_op \<Rightarrow> 'q \<Rightarrow> q_obs \<times> 'q" where
  "call_with push pop drain c q =
     (case c of
        Push_op fr p \<Rightarrow> (case push fr p q of None \<Rightarrow> (Waits, q) | Some q' \<Rightarrow> (Done, q'))
      | Pop_op \<Rightarrow> (case pop q of None \<Rightarrow> (Waits, q) | Some (x, q') \<Rightarrow> (Got x, q'))
      | Drain_op \<Rightarrow> (Done, drain q))"

definition q_call :: "q_op \<Rightarrow> priority_frame_queue \<Rightarrow> q_obs \<times> priority_frame_queue" where
  "q_call = call_with q_Push q_Pop q_Drain"

definition spec_call :: "q_op \<Rightarrow> spec_queue \<Rightarrow> q_obs \<times> spec_queue" where
  "spec_call = call_with spec_Push spec_Pop spec_Drain"

fun run_calls :: "(q_op \<Rightarrow> 'q \<Rightarrow> q_obs \<times> 'q) \<Rightarrow> q_op list \<Rightarrow> 'q \<Rightarrow> q_obs list \<times> 'q" where
  "run_calls call [] q = ([], q)"
| "run_calls call (c # cs) q =
     (case call c q of (x, q') \<Rightarrow> case run_calls call cs q' of (xs, q'') \<Rightarrow> (x # xs, q''))"

definition spec_new :: "nat \<Rightarrow> spec_queue" where
  "spec_new n = \<lparr>sq_items = [], sq_size = n, sq_drain = False\<rparr>"

lemma q_Push_None: "q_Push fr p q = None \<longleftrightarrow> spec_Push fr p (q_abs q) = None"
  by (auto simp: q_Push_def spec_Push_def q_abs_def Let_def)

lemma q_Pop_None: "q_ok q \<Longrightarrow> q_Pop q = None \<longleftrightarrow> spec_Pop (q_abs q) = None"
proof (cases "pq_queue q = []")
  case True
  then show ?thesis by (auto simp: q_Pop_def spec_Pop_def q_abs_def)
next
  case False
  moreover from False have "sort_key pf_insertId (pq_queue q) \<noteq> []" by (metis length_sort length_0_conv)
  ultimately show ?thesis
    by (auto simp: q_Pop_def spec_Pop_def q_abs_def heap_Pop_def Let_def split: prod.split)
qed

lemma q_Push_nextId: "q_Push fr p q = Some q' \<Longrightarrow> pq_nextInsertId q' = pq_nextInsertId q + 1"
  by (auto simp: q_Push_def Let_def split: if_splits)

lemma q_call_refines:
  assumes "q_ok q" "is_Push c \<Longrightarrow> pq_nextInsertId q \<noteq> - 1" "q_call c q = (x, q')"
  shows "spec_call c (q_abs q) = (x, q_abs q')" "q_ok q'"
    "pq_nextInsertId q' = pq_nextInsertId q \<or> is_Push c \<and> pq_nextInsertId q' = pq_nextInsertId q + 1"
proof -
  have "spec_call c (q_abs q) = (x, q_abs q') \<and> q_ok q' \<and>
    (pq_nextInsertId q' = pq_nextInsertId q \<or> is_Push c \<and> pq_nextInsertId q' = pq_nextInsertId q + 1)"
  proof (cases c)
    case (Push_op fr p)
    with assms show ?thesis
      by (cases "q_Push fr p q")
        (auto simp: q_call_def spec_call_def call_with_def q_Push_None q_Push_ok q_Push_nextId)
  next
    case Pop_op
    with assms show ?thesis
      by (cases "q_Pop q") (auto simp: q_call_def spec_call_def call_with_def q_Pop_None dest: q_Pop_ok)
  next
    case Drain_op
    with assms show ?thesis
      by (auto simp: q_call_def spec_call_def call_with_def q_Drain_def spec_Drain_def q_abs_def q_ok_def)
  qed
  then show "spec_call c (q_abs q) = (x, q_abs q')" "q_ok q'"
    "pq_nextInsertId q' = pq_nextInsertId q \<or> is_Push c \<and> pq_nextInsertId q' = pq_nextInsertId q + 1" by auto
qed

lemma run_refines:
  assumes "q_ok q" "unat (pq_nextInsertId q) + length (filter is_Push cs) < 2 ^ 64" "run_calls q_call cs q = (xs, q')"
  shows "run_calls spec_call cs (q_abs q) = (xs, q_abs q') \<and> q_ok q' \<and>
     unat (pq_nextInsertId q') \<le> unat (pq_nextInsertId q) + length (filter is_Push cs)"
  using assms
proof (induction cs arbitrary: q xs)
  case (Cons c cs)
  obtain x q1 where q1: "q_call c q = (x, q1)" by fastforce
  obtain ys where ys: "run_calls q_call cs q1 = (ys, q')" "xs = x # ys"
    using Cons.prems(3) q1 by (auto split: prod.splits)
  have nw: "is_Push c \<Longrightarrow> pq_nextInsertId q \<noteq> - 1"
    using Cons.prems(2) by (auto simp: unsigned_minus_1_eq_mask mask_eq_exp_minus_1)
  note r = q_call_refines [OF Cons.prems(1) nw q1]
  have "unat (pq_nextInsertId q + 1) \<le> unat (pq_nextInsertId q) + 1"
    unfolding unat_word_ariths by (rule order_trans [OF mod_less_eq_dividend]) simp
  with r(3) Cons.prems(2) have "unat (pq_nextInsertId q1) + length (filter is_Push cs) < 2 ^ 64" by (auto split: if_splits)
  from Cons.IH [OF r(2) this ys(1)] r(1,3) ys(2) \<open>unat (pq_nextInsertId q + 1) \<le> _\<close> show ?case by auto
qed auto

lemma q_ok_new: "q_ok (NewPriorityFrameQueue n)"
  by (simp add: q_ok_def NewPriorityFrameQueue_def heap_Init_def fq.heap_ordered_def)

lemma q_abs_new: "q_abs (NewPriorityFrameQueue n) = spec_new n"
  by (simp add: q_abs_def NewPriorityFrameQueue_def heap_Init_def spec_new_def)

text \<open>
  C7: The frame queue implements its specification: over any sequence of calls with
  fewer than $2^{64}$ pushes (the range of the insertion counter), every caller of the heap sees what it would see of
  a plain list in arrival order from which \<open>Pop\<close> takes the earliest frame of the most urgent
  priority, waits included.
\<close>

theorem queue_refines:
  assumes "length (filter is_Push cs) < 2 ^ 64"
  shows "fst (run_calls q_call cs (NewPriorityFrameQueue n)) = fst (run_calls spec_call cs (spec_new n))"
proof -
  obtain xs q where r: "run_calls q_call cs (NewPriorityFrameQueue n) = (xs, q)" by fastforce
  from run_refines [OF q_ok_new _ r] assms show ?thesis
    by (simp add: r q_abs_new) (simp add: NewPriorityFrameQueue_def)
qed

definition ex_calls :: "q_op list" where
  "ex_calls =
     [Push_op (Data \<lparr>df_StreamId = 1, df_Flags = 0, df_Data = [1]\<rparr>) 3,
      Push_op (Data \<lparr>df_StreamId = 1, df_Flags = 0, df_Data = [2]\<rparr>) 3,
      Push_op (Data \<lparr>df_StreamId = 3, df_Flags = 0, df_Data = [3]\<rparr>) 0,
      Push_op (Data \<lparr>df_StreamId = 5, df_Flags = 0, df_Data = [4]\<rparr>) 7,
      Pop_op, Pop_op, Pop_op, Pop_op, Drain_op, Pop_op]"

theorem queue_refines_witness:
  "fst (run_calls q_call ex_calls (NewPriorityFrameQueue 3)) =
     [Done, Done, Done, Waits,
      Got (Some (Data \<lparr>df_StreamId = 3, df_Flags = 0, df_Data = [3]\<rparr>)),
      Got (Some (Data \<lparr>df_StreamId = 1, df_Flags = 0, df_Data = [1]\<rparr>)),
      Got (Some (Data \<lparr>df_StreamId = 1, df_Flags = 0, df_Data = [2]\<rparr>)),
      Waits, Done, Got None]"
proof -
  have "length (filter is_Push ex_calls) < 2 ^ 64" by (simp add: ex_calls_def)
  from queue_refines [OF this, of 3] show ?thesis
    by (simp add: ex_calls_def spec_call_def call_with_def spec_new_def spec_Push_def spec_Pop_def
        spec_Drain_def take_urgent_def)
qed

section \<open>Bounds\<close>

lemma q_call_length:
  assumes "q_call c q = (x, q')" "length (pq_queue q) \<le> pq_size q"
  shows "length (pq_queue q') \<le> pq_size q' \<and> pq_size q' = pq_size q"
proof (cases c)
  case (Push_op fr p)
  have "length (heap_Push frameQueue_Less y h) = Suc (length h)" for y h
    using heap_up_contents [of "length h" "h @ [y]" frameQueue_Less] by (simp add: heap_Push_def)
  with Push_op assms show ?thesis
    by (auto simp: q_call_def call_with_def q_Push_def Let_def split: if_splits)
next
  case Pop_op
  have "length r \<le> length h" if "heap_Pop frameQueue_Less h = Some (y, r)" for h y r
    using that by (auto simp: heap_Pop_def Let_def split: if_splits)
  with Pop_op assms show ?thesis
    by (auto simp: q_call_def call_with_def q_Pop_def split: if_splits option.splits) (meson le_trans)
next
  case Drain_op
  with assms show ?thesis by (auto simp: q_call_def call_with_def q_Drain_def)
qed

lemma run_length:
  "run_calls q_call cs q = (xs, q') \<Longrightarrow> length (pq_queue q) \<le> pq_size q \<Longrightarrow>
   length (pq_queue q') \<le> pq_size q' \<and> pq_size q' = pq_size q"
proof (induction cs arbitrary: q xs)
  case (Cons c cs)
  obtain x q1 where q1: "q_call c q = (x, q1)" by fastforce
  obtain ys where ys: "run_calls q_call cs q1 = (ys, q')"
    using Cons.prems(1) q1 by (auto split: prod.splits)
  from q_call_length [OF q1 Cons.prems(2)] Cons.IH [OF ys] show ?case by auto
qed simp

text \<open>
  C31: Back-pressure: after any calls whatever, the queue holds at most as many frames as its
  size; a push on a full queue waits.
\<close>

theorem queue_bounded: "length (pq_queue (snd (run_calls q_call cs (NewPriorityFrameQueue n)))) \<le> n"
proof -
  obtain xs q where r: "run_calls q_call cs (NewPriorityFrameQueue n) = (xs, q)" by fastforce
  from run_length [OF r] show ?thesis
    by (simp add: r) (simp add: NewPriorityFrameQueue_def heap_Init_def)
qed

section \<open>Order\<close>

text \<open>The frames a run took in and gave out.\<close>

fun pushed :: "q_op list \<Rightarrow> q_obs list \<Rightarrow> frame list" where
  "pushed (Push_op fr p # cs) (Done # xs) = fr # pushed cs xs"
| "pushed (c # cs) (x # xs) = pushed cs xs"
| "pushed _ _ = []"

fun popped :: "q_obs list \<Rightarrow> frame list" where
  "popped (Got (Some fr) # xs) = fr # popped xs"
| "popped (x # xs) = popped xs"
| "popped [] = []"

lemma take_urgentE:
  assumes "s \<noteq> []" "take_urgent s = (fr, rest)"
  obtains ys m zs where "s = ys @ m # zs" "fr = fst m" "rest = ys @ zs" "\<forall>y\<in>set ys. snd y \<noteq> snd m"
proof -
  let ?p = "Min (set (map snd s))"
  have "?p \<in> set (map snd s)" using assms(1) by (intro Min_in) auto
  then obtain x where "x \<in> set s" "?p = snd x" unfolding set_map by (rule imageE)
  then have "dropWhile (\<lambda>x. snd x \<noteq> ?p) s \<noteq> []" by (auto simp only: dropWhile_eq_Nil_conv)
  then obtain m zs where m: "dropWhile (\<lambda>x. snd x \<noteq> ?p) s = m # zs" by (meson neq_Nil_conv)
  then have mp: "snd m = ?p" using hd_dropWhile [of "\<lambda>x. snd x \<noteq> ?p" s] by simp
  have "s = takeWhile (\<lambda>x. snd x \<noteq> ?p) s @ m # zs"
    unfolding m [symmetric] by (rule takeWhile_dropWhile_id [symmetric])
  moreover have "fr = fst m" "rest = takeWhile (\<lambda>x. snd x \<noteq> ?p) s @ zs"
    using assms(2) unfolding take_urgent_def Let_def m by simp_all
  moreover have "\<forall>y\<in>set (takeWhile (\<lambda>x. snd x \<noteq> ?p) s). snd y \<noteq> snd m"
    unfolding mp by (auto dest: set_takeWhileD)
  ultimately show thesis by (rule that)
qed

lemma take_urgent_order:
  assumes "s \<noteq> []" "\<forall>x\<in>set s. P (fst x) \<longrightarrow> snd x = p0" "take_urgent s = (fr, rest)"
  shows "filter P (map fst s) = filter P (fr # map fst rest)" "set rest \<subseteq> set s"
proof -
  from take_urgentE [OF assms(1,3)] obtain ys m zs where
    s: "s = ys @ m # zs" "fr = fst m" "rest = ys @ zs" and ys: "\<forall>y\<in>set ys. snd y \<noteq> snd m" .
  have "filter P (map fst ys) = []" if "P (fst m)"
    using assms(2) that ys by (fastforce simp: s filter_empty_conv)
  then show "filter P (map fst s) = filter P (fr # map fst rest)" by (auto simp: s)
  show "set rest \<subseteq> set s" by (auto simp: s)
qed

lemma spec_run_order:
  assumes "run_calls spec_call cs s = (xs, s')"
    "\<forall>x\<in>set (sq_items s). P (fst x) \<longrightarrow> snd x = p0" "\<forall>fr p. Push_op fr p \<in> set cs \<longrightarrow> P fr \<longrightarrow> p = p0"
  shows "filter P (map fst (sq_items s)) @ filter P (pushed cs xs) =
     filter P (popped xs) @ filter P (map fst (sq_items s'))"
  using assms
proof (induction cs arbitrary: s xs)
  case (Cons c cs)
  obtain x s1 where s1: "spec_call c s = (x, s1)" by fastforce
  obtain ys where ys: "run_calls spec_call cs s1 = (ys, s')" "xs = x # ys"
    using Cons.prems(1) s1 by (auto split: prod.splits)
  have IH: "filter P (map fst (sq_items s1)) @ filter P (pushed cs ys) =
      filter P (popped ys) @ filter P (map fst (sq_items s'))"
    if "\<forall>x\<in>set (sq_items s1). P (fst x) \<longrightarrow> snd x = p0"
    using Cons.IH [OF ys(1) that] Cons.prems(3) by auto
  show ?case
  proof (cases c)
    case (Push_op fr p)
    with s1 IH Cons.prems(2,3) show ?thesis
      by (cases "spec_Push fr p s")
        (auto simp: spec_call_def call_with_def spec_Push_def ys(2) split: if_splits)
  next
    case Drain_op
    with s1 IH Cons.prems(2) show ?thesis
      by (auto simp: spec_call_def call_with_def spec_Drain_def ys(2))
  next
    case Pop_op
    show ?thesis
    proof (cases "sq_items s = []")
      case True
      with Pop_op s1 IH show ?thesis
        by (auto simp: spec_call_def call_with_def spec_Pop_def ys(2) split: if_splits)
    next
      case False
      obtain fr rest where t: "take_urgent (sq_items s) = (fr, rest)" by fastforce
      note o = take_urgent_order [OF False Cons.prems(2) t]
      from Pop_op s1 False t have "x = Got (Some fr)" "s1 = s\<lparr>sq_items := rest\<rparr>"
        by (auto simp: spec_call_def call_with_def spec_Pop_def)
      with o IH Cons.prems(2) Pop_op show ?thesis by (auto simp: ys(2))
    qed
  qed
qed auto

text \<open>
  C16: Frames that share a priority keep their order.  Take any set of frames that are all pushed
  with one priority (the frames of a stream whose priority does not change): over any run with
  fewer than $2^{64}$ pushes, those popped, followed by those still in the queue in arrival
  order, are exactly those pushed, in the order they were pushed.
\<close>

theorem queue_fifo:
  assumes "length (filter is_Push cs) < 2 ^ 64" "\<forall>fr p. Push_op fr p \<in> set cs \<longrightarrow> P fr \<longrightarrow> p = p0"
    "run_calls q_call cs (NewPriorityFrameQueue n) = (xs, q)"
  shows "filter P (pushed cs xs) =
     filter P (popped xs) @ filter P (map pf_frame (sort_key pf_insertId (pq_queue q)))"
proof -
  have "run_calls spec_call cs (spec_new n) = (xs, q_abs q)"
    using run_refines [OF q_ok_new _ assms(3)] assms(1) by (simp add: q_abs_new) (simp add: NewPriorityFrameQueue_def)
  from spec_run_order [OF this _ assms(2)] show ?thesis
    by (simp add: spec_new_def q_abs_def comp_def)
qed

theorem queue_fifo_witness:
  "\<exists>xs q. run_calls q_call ex_calls (NewPriorityFrameQueue 3) = (xs, q) \<and>
     filter (\<lambda>fr. \<exists>d. fr = Data d \<and> df_StreamId d = 1) (pushed ex_calls xs) =
     filter (\<lambda>fr. \<exists>d. fr = Data d \<and> df_StreamId d = 1) (popped xs) @
     filter (\<lambda>fr. \<exists>d. fr = Data d \<and> df_StreamId d = 1) (map pf_frame (sort_key pf_insertId (pq_queue q)))"
proof -
  obtain xs q where r: "run_calls q_call ex_calls (NewPriorityFrameQueue 3) = (xs, q)" by fastforce
  have 1: "length (filter is_Push ex_calls) < 2 ^ 64" by (simp add: ex_calls_def)
  have 2: "\<forall>fr p. Push_op fr p \<in> set ex_calls \<longrightarrow> (\<exists>d. fr = Data d \<and> df_StreamId d = 1) \<longrightarrow> p = 3"
    by (auto simp: ex_calls_def)
  from queue_fifo [OF 1 2 r] r show ?thesis by auto
qed

section \<open>Draining\<close>

lemma take_urgent_contents:
  assumes "s \<noteq> []" "take_urgent s = (fr, rest)"
  shows "mset (map fst s) = add_mset fr (mset (map fst rest))" "length s = Suc (length rest)"
proof -
  from take_urgentE [OF assms] obtain ys m zs where "s = ys @ m # zs" "fr = fst m" "rest = ys @ zs" .
  then show "mset (map fst s) = add_mset fr (mset (map fst rest))" "length s = Suc (length rest)" by simp_all
qed

lemma spec_drained:
  assumes "sq_drain s"
  shows "\<exists>frs s'. run_calls spec_call (replicate (Suc (length (sq_items s))) Pop_op) s =
       (map (\<lambda>fr. Got (Some fr)) frs @ [Got None], s') \<and> mset frs = mset (map fst (sq_items s))"
  using assms
proof (induction "length (sq_items s)" arbitrary: s)
  case 0
  then show ?case by (auto simp: spec_call_def call_with_def spec_Pop_def)
next
  case (Suc n)
  then have ne: "sq_items s \<noteq> []" by auto
  obtain fr rest where t: "take_urgent (sq_items s) = (fr, rest)" by fastforce
  note c = take_urgent_contents [OF ne t]
  let ?s = "s\<lparr>sq_items := rest\<rparr>"
  from Suc(2) c(2) have n: "n = length (sq_items ?s)" by simp
  from Suc(1) [OF n] Suc.prems obtain frs s' where
    r: "run_calls spec_call (replicate (Suc (length rest)) Pop_op) ?s =
      (map (\<lambda>fr. Got (Some fr)) frs @ [Got None], s')" "mset frs = mset (map fst rest)" by auto
  have "spec_call Pop_op s = (Got (Some fr), ?s)"
    using ne t by (simp add: spec_call_def call_with_def spec_Pop_def)
  with r have "run_calls spec_call (replicate (Suc (length (sq_items s))) Pop_op) s =
      (map (\<lambda>fr. Got (Some fr)) (fr # frs) @ [Got None], s')"
    by (simp add: c(2))
  moreover have "mset (fr # frs) = mset (map fst (sq_items s))" using r(2) c(1) by simp
  ultimately show ?case by blast
qed

text \<open>
  C17: A drained queue empties: from any state a run of calls ends in, once \<open>Drain\<close> has been
  called, popping as many times as the queue holds frames never waits and gives each of them
  exactly once, and the next pop returns nil, which ends the worker.
\<close>

theorem queue_drains:
  assumes "length (filter is_Push cs) < 2 ^ 64" "run_calls q_call cs (NewPriorityFrameQueue n) = (xs, q)"
    "pq_drain q"
  shows "\<exists>frs. fst (run_calls q_call (replicate (Suc (length (pq_queue q))) Pop_op) q) =
       map (\<lambda>fr. Got (Some fr)) frs @ [Got None] \<and> mset frs = mset (map pf_frame (pq_queue q))"
proof -
  let ?pops = "replicate (Suc (length (pq_queue q))) Pop_op"
  have q: "q_ok q" "unat (pq_nextInsertId q) < 2 ^ 64"
    using run_refines [OF q_ok_new _ assms(2)] assms(1) by (auto simp: NewPriorityFrameQueue_def)
  obtain ys q' where r: "run_calls q_call ?pops q = (ys, q')" by fastforce
  have items: "length (sq_items (q_abs q)) = length (pq_queue q)"
    "mset (map fst (sq_items (q_abs q))) = mset (map pf_frame (pq_queue q))"
    by (simp_all add: q_abs_def comp_def)
  have "sq_drain (q_abs q)" using assms(3) by (simp add: q_abs_def)
  from spec_drained [OF this] run_refines [OF q(1) _ r] q(2) show ?thesis
    unfolding items r by auto
qed

theorem queue_drains_witness:
  "\<exists>xs q frs. run_calls q_call (take 3 ex_calls @ [Drain_op]) (NewPriorityFrameQueue 3) = (xs, q) \<and>
     fst (run_calls q_call (replicate (Suc (length (pq_queue q))) Pop_op) q) =
       map (\<lambda>fr. Got (Some fr)) frs @ [Got None] \<and> mset frs = mset (map pf_frame (pq_queue q))"
proof -
  let ?cs = "take 3 ex_calls @ [Drain_op]"
  obtain xs q where r: "run_calls q_call ?cs (NewPriorityFrameQueue 3) = (xs, q)" by fastforce
  have 1: "length (filter is_Push ?cs) < 2 ^ 64" by (simp add: ex_calls_def)
  have "pq_drain q"
    using r by (auto simp: ex_calls_def q_call_def call_with_def q_Drain_def split: prod.splits option.splits)
  from queue_drains [OF 1 r this] r show ?thesis by blast
qed

end
