(* ===== verification/Priority_Threads.thy ===== *)
theory Priority_Threads
  imports Priority_Runs
begin

text \<open>
  The condition variable of the frame queue.  A queue has one producer (the read loop of
  \<open>Serve\<close>), one consumer (a frame worker), and a third goroutine that drains it.  Each call
  holds the mutex except while it waits, so its parts between two waits are one step.  A thread
  that waits is asleep until a \<open>Signal\<close> or \<open>Broadcast\<close> reaches it; then it is woken
  and tests its condition again.
\<close>

datatype 'a thread = Outside | Asleep 'a | Woken 'a

record queue_system =
  qs_queue :: priority_frame_queue
  qs_pusher :: "(frame \<times> u8) thread"
  qs_popper :: "unit thread"

text \<open>\<open>Signal\<close> wakes one of the threads that are asleep, if there is one.\<close>

inductive c_Signal :: "queue_system \<Rightarrow> queue_system \<Rightarrow> bool" where
  nobody: "\<forall>x. qs_pusher s \<noteq> Asleep x \<Longrightarrow> qs_popper s \<noteq> Asleep () \<Longrightarrow> c_Signal s s"
| pusher: "qs_pusher s = Asleep x \<Longrightarrow> c_Signal s (s\<lparr>qs_pusher := Woken x\<rparr>)"
| popper: "qs_popper s = Asleep () \<Longrightarrow> c_Signal s (s\<lparr>qs_popper := Woken ()\<rparr>)"

fun wake :: "'a thread \<Rightarrow> 'a thread" where
  "wake (Asleep x) = Woken x"
| "wake t = t"

definition c_Broadcast :: "queue_system \<Rightarrow> queue_system" where
  "c_Broadcast s = s\<lparr>qs_pusher := wake (qs_pusher s), qs_popper := wake (qs_popper s)\<rparr>"

text \<open>A thread may run a call if it is outside or has been woken in it.\<close>

inductive queue_step :: "queue_system \<Rightarrow> queue_system \<Rightarrow> bool" where
  push_waits: "qs_pusher s = Outside \<or> qs_pusher s = Woken (fr, p) \<Longrightarrow> q_Push fr p (qs_queue s) = None \<Longrightarrow>
     queue_step s (s\<lparr>qs_pusher := Asleep (fr, p)\<rparr>)"
| push: "qs_pusher s = Outside \<or> qs_pusher s = Woken (fr, p) \<Longrightarrow> q_Push fr p (qs_queue s) = Some q \<Longrightarrow>
     c_Signal (s\<lparr>qs_pusher := Outside, qs_queue := q\<rparr>) s' \<Longrightarrow> queue_step s s'"
| pop_waits: "qs_popper s = Outside \<or> qs_popper s = Woken () \<Longrightarrow> q_Pop (qs_queue s) = None \<Longrightarrow>
     queue_step s (s\<lparr>qs_popper := Asleep ()\<rparr>)"
| pop: "qs_popper s = Outside \<or> qs_popper s = Woken () \<Longrightarrow> q_Pop (qs_queue s) = Some (Some fr, q) \<Longrightarrow>
     c_Signal (s\<lparr>qs_popper := Outside, qs_queue := q\<rparr>) s' \<Longrightarrow> queue_step s s'"
| pop_nil: "qs_popper s = Outside \<or> qs_popper s = Woken () \<Longrightarrow> q_Pop (qs_queue s) = Some (None, q) \<Longrightarrow>
     queue_step s (s\<lparr>qs_popper := Outside\<rparr>)"
| drain: "queue_step s (c_Broadcast (s\<lparr>qs_queue := q_Drain (qs_queue s)\<rparr>))"

inductive_cases signalE: "c_Signal s s'"

inductive queue_reach :: "nat \<Rightarrow> queue_system \<Rightarrow> bool" for n where
  start: "queue_reach n \<lparr>qs_queue = NewPriorityFrameQueue n, qs_pusher = Outside, qs_popper = Outside\<rparr>"
| step: "queue_reach n s \<Longrightarrow> queue_step s s' \<Longrightarrow> queue_reach n s'"

definition sleeps_well :: "nat \<Rightarrow> queue_system \<Rightarrow> bool" where
  "sleeps_well n s = (pq_size (qs_queue s) = n \<and> length (pq_queue (qs_queue s)) \<le> n \<and>
     (\<forall>x. qs_pusher s = Asleep x \<longrightarrow> length (pq_queue (qs_queue s)) = n) \<and>
     (qs_popper s = Asleep () \<longrightarrow> pq_queue (qs_queue s) = [] \<and> \<not> pq_drain (qs_queue s)))"

lemma wake_not_asleep: "wake t \<noteq> Asleep x"
  by (cases t) auto

lemma q_Push_SomeD:
  assumes "q_Push fr p q = Some q'"
  shows "pq_size q' = pq_size q \<and> length (pq_queue q') = Suc (length (pq_queue q)) \<and>
     length (pq_queue q') \<le> pq_size q \<and> pq_drain q' = pq_drain q"
proof -
  have "length (heap_Push frameQueue_Less y h) = Suc (length h)" for y h
    using heap_up_contents [of "length h" "h @ [y]" frameQueue_Less] by (simp add: heap_Push_def)
  with assms show ?thesis by (auto simp: q_Push_def Let_def split: if_splits)
qed

lemma q_Pop_SomeD:
  assumes "q_Pop q = Some (Some fr, q')"
  shows "pq_size q' = pq_size q \<and> length (pq_queue q) = Suc (length (pq_queue q')) \<and> pq_drain q' = pq_drain q"
proof -
  have "length h = Suc (length r)" if "heap_Pop frameQueue_Less h = Some (y, r)" for h y r
  proof (cases "length h \<le> 1")
    case True
    with that show ?thesis by (cases h) (auto simp: heap_Pop_def Let_def)
  next
    case False
    with that heap_down_contents [of 0 "length h - 1" "swap_at 0 (length h - 1) h" frameQueue_Less]
    show ?thesis by (auto simp: heap_Pop_def Let_def split: if_splits)
  qed
  with assms show ?thesis by (auto simp: q_Pop_def split: if_splits option.splits)
qed

lemma q_Pop_NoneD: "q_Pop q = None \<Longrightarrow> pq_queue q = [] \<and> \<not> pq_drain q"
  by (auto simp: q_Pop_def heap_Pop_def Let_def split: if_splits option.splits)

lemma queue_step_sleeps_well:
  assumes "queue_step s s'" "sleeps_well n s" "0 < n"
  shows "sleeps_well n s'"
  using assms
proof cases
  case (push_waits fr p)
  with assms(2) show ?thesis by (auto simp: sleeps_well_def q_Push_def Let_def split: if_splits)
next
  case (push fr p q)
  from q_Push_SomeD [OF push(2)] push(1) assms(2,3) push(3) show ?thesis
    by (auto simp: sleeps_well_def elim!: signalE)
next
  case pop_waits
  with assms(2) q_Pop_NoneD [OF pop_waits(3)] show ?thesis by (auto simp: sleeps_well_def)
next
  case (pop fr q)
  from q_Pop_SomeD [OF pop(2)] pop(1) assms(2,3) pop(3) show ?thesis
    by (auto simp: sleeps_well_def elim!: signalE)
next
  case (pop_nil q)
  with assms(2) show ?thesis by (auto simp: sleeps_well_def)
next
  case drain
  with assms(2) show ?thesis by (auto simp: sleeps_well_def c_Broadcast_def q_Drain_def wake_not_asleep)
qed

lemma reach_sleeps_well: "queue_reach n s \<Longrightarrow> 0 < n \<Longrightarrow> sleeps_well n s"
proof (induction rule: queue_reach.induct)
  case start
  then show ?case by (simp add: sleeps_well_def NewPriorityFrameQueue_def heap_Init_def)
next
  case (step s s')
  then show ?case by (blast intro: queue_step_sleeps_well)
qed

text \<open>
  C8: No wake-up is lost.  However the producer, the consumer and the draining goroutine
  interleave, a thread that sleeps in a queue of positive size is one whose call cannot proceed,
  and producer and consumer are never both asleep: no schedule leaves the queue stuck.
\<close>

theorem queue_no_lost_wakeup:
  assumes "queue_reach n s" "0 < n"
  shows "(\<forall>fr p. qs_pusher s = Asleep (fr, p) \<longrightarrow> q_Push fr p (qs_queue s) = None) \<and>
     (qs_popper s = Asleep () \<longrightarrow> q_Pop (qs_queue s) = None) \<and>
     \<not> (\<exists>x. qs_pusher s = Asleep x \<and> qs_popper s = Asleep ())"
  using reach_sleeps_well [OF assms] assms(2)
  by (auto simp: sleeps_well_def q_Push_def q_Pop_def)

theorem queue_no_lost_wakeup_witness:
  "\<exists>s. queue_reach 1 s \<and> qs_popper s = Asleep () \<and> q_Pop (qs_queue s) = None"
proof -
  let ?s = "\<lparr>qs_queue = NewPriorityFrameQueue 1, qs_pusher = Outside, qs_popper = Outside\<rparr>"
  have "queue_step ?s (?s\<lparr>qs_popper := Asleep ()\<rparr>)"
    by (rule pop_waits) (simp_all add: q_Pop_def NewPriorityFrameQueue_def heap_Init_def)
  then have r: "queue_reach 1 (?s\<lparr>qs_popper := Asleep ()\<rparr>)" by (blast intro: queue_reach.intros)
  from queue_no_lost_wakeup [OF r] r show ?thesis by auto
qed

end
