(* ===== verification/Connection.thy ===== *)
theory Connection
  imports Spdy_Write Spdy_Read
begin

text \<open>
  The state of \<^verbatim>\<open>connection.go\<close> and \<^verbatim>\<open>stream.go\<close> and the operations of a
  \<open>Connection\<close> that run from start to end without waiting.  Streams are shared objects: they
  live in a store and are named by their place in it, as the source names them by pointers.
\<close>

section \<open>Streams\<close>

text \<open>
  Of the channels of a stream, \<open>dataChan\<close> and \<open>headerChan\<close> have no buffer and are never
  closed, so they hold no state: a send is a rendezvous (theory \<open>Worker\<close>).  \<open>startChan\<close>
  and \<open>closeChan\<close> are open or closed.
\<close>

record go_stream =
  sm_streamId :: stream_id
  sm_parent :: "nat option"
  sm_startClosed :: bool
  sm_unread :: "byte list option"
  sm_priority :: u8
  sm_headers :: http_header
  sm_finished :: bool
  sm_hasReplyCond :: bool
  sm_replied :: bool
  sm_closeClosed :: bool

section \<open>The idle-aware framer\<close>

text \<open>
  The framer with the idle monitor's state.  \<open>if_running\<close>: the monitor is in its loop.
  \<open>if_open\<close>: \<open>resetChan\<close> is not nil; the token a successful read or write sends to that
  channel is taken by the monitor at once.  \<open>if_pending\<close> is the content of
  \<open>setTimeoutChan\<close>, a buffer of one, and \<open>if_setOpen\<close> says that this channel is not nil.
  Either channel is set to nil when it is closed, under the same lock, so one that is nil is a
  closed one.  \<open>if_timer\<close> is the monitor's variable \<open>timer\<close>: nil, stopped (or fired and not
  set again), or running; time is left out, so a running timer may fire at any moment.
  \<open>if_expired\<close>: there is a value in \<open>timer.C\<close>; with the timers of the Go version in
  \<^verbatim>\<open>go.mod\<close> neither \<open>Stop\<close> nor \<open>Reset\<close> takes it out.
\<close>

datatype idle_timer = No_Timer | Stopped | Armed

record ('c, 'd) idle_framer =
  if_f :: "('c, 'd) framer"
  if_running :: bool
  if_open :: bool
  if_pending :: "int option"
  if_setOpen :: bool
  if_timeout :: int
  if_timer :: idle_timer
  if_expired :: bool

definition newIdleAwareFramer :: "('c, 'd) framer \<Rightarrow> ('c, 'd) idle_framer" where
  "newIdleAwareFramer f = \<lparr>if_f = f, if_running = True, if_open = True, if_pending = None,
     if_setOpen = True, if_timeout = 0, if_timer = No_Timer, if_expired = False\<rparr>"

text \<open>The cases of the monitor's \<open>select\<close> that change its own state.\<close>

definition monitor_reset :: "('c, 'd) idle_framer \<Rightarrow> ('c, 'd) idle_framer" where
  "monitor_reset i = (if if_timer i \<noteq> No_Timer \<and> if_timeout i > 0 then i\<lparr>if_timer := Armed\<rparr> else i)"

lemma monitor_reset_sel [simp]: "if_f (monitor_reset i) = if_f i" "if_open (monitor_reset i) = if_open i"
  "if_running (monitor_reset i) = if_running i" "if_setOpen (monitor_reset i) = if_setOpen i"
  by (simp_all add: monitor_reset_def)

definition monitor_timeout :: "int \<Rightarrow> ('c, 'd) idle_framer \<Rightarrow> ('c, 'd) idle_framer" where
  "monitor_timeout t i =
     i\<lparr>if_pending := None, if_timeout := t,
       if_timer := (if t = 0 then (if if_timer i \<noteq> No_Timer then Stopped else No_Timer) else Armed)\<rparr>"

definition timer_fires :: "('c, 'd) idle_framer \<Rightarrow> ('c, 'd) idle_framer option" where
  "timer_fires i =
     (if if_timer i = Armed then Some (i\<lparr>if_timer := Stopped, if_expired := True\<rparr>) else None)"

text \<open>\<open>close\<close> of a channel that is closed already, or nil, is a panic: \<open>None\<close>.\<close>

definition monitor_stop :: "('c, 'd) idle_framer \<Rightarrow> ('c, 'd) idle_framer option" where
  "monitor_stop i =
     (if \<not> if_open i \<or> \<not> if_setOpen i then None
      else Some (i\<lparr>if_timer := (if if_timer i \<noteq> No_Timer then Stopped else No_Timer),
        if_open := False, if_pending := None, if_setOpen := False, if_running := False\<rparr>))"

definition iaf_WriteFrame ::
  "('c, 'd) golib \<Rightarrow> frame \<Rightarrow> ('c, 'd) idle_framer \<Rightarrow> go_error option \<times> ('c, 'd) idle_framer" where
  "iaf_WriteFrame lib fr i =
     (if \<not> if_open i then (Some EOF, i)
      else case WriteFrame lib (if_f i) fr of
        (Some err, f, _) \<Rightarrow> (Some err, i\<lparr>if_f := f\<rparr>)
      | (None, f, _) \<Rightarrow> (None, monitor_reset (i\<lparr>if_f := f\<rparr>)))"

text \<open>\<open>None\<close>: it waits for ever, sending the token on a channel that is nil.\<close>

definition iaf_ReadFrame ::
  "('c, 'd) golib \<Rightarrow> ('c, 'd) idle_framer \<Rightarrow> (go_error, frame, ('c, 'd) idle_framer) result option" where
  "iaf_ReadFrame lib i =
     (case ReadFrame lib (if_f i) of
        (Inl err, f) \<Rightarrow> Some (Inl err, i\<lparr>if_f := f\<rparr>)
      | (Inr fr, f) \<Rightarrow> if if_open i then Some (Inr fr, monitor_reset (i\<lparr>if_f := f\<rparr>)) else None)"

text \<open>\<open>None\<close>: the buffer is full, and it waits.\<close>

definition setIdleTimeout :: "int \<Rightarrow> ('c, 'd) idle_framer \<Rightarrow> ('c, 'd) idle_framer option" where
  "setIdleTimeout t i =
     (if \<not> if_setOpen i then Some i
      else if if_pending i \<noteq> None then None else Some (i\<lparr>if_pending := Some t\<rparr>))"

section \<open>Connections\<close>

text \<open>
  A goroutine the connection has spawned and that has not run yet.  \<open>Idle_Task\<close> is the one of
  the monitor, with the streams it still has to reset.
\<close>

datatype go_task =
    Reset_Task u32 stream_id
  | Notify_Task "nat option"
  | Shutdown_Task int
  | Idle_Task "nat list"

text \<open>
  Where \<open>shutdown\<close> is, with its timeout: it waits for the streams to go, or for them after
  it has closed the network connection by force, or for someone to take its error, or it has
  closed \<open>shutdownChan\<close>.  The flag says that the channel \<open>streamsClosed\<close> is closed.
\<close>

datatype shutdown_state =
    Sd_None
  | Sd_Waiting int bool
  | Sd_Forced int "go_error option" bool
  | Sd_Reporting go_error int
  | Sd_Done

text \<open>
  \<open>cn_streams\<close> is the map \<open>streams\<close>, \<open>cn_store\<close> the streams ever made;
  \<open>cn_pingChans\<close> maps a ping id to its channel, \<open>cn_pings\<close> says of each channel ever
  made whether it is closed.  \<open>cn_shutdownChan_closed\<close> is the state of \<open>shutdownChan\<close>.
  \<open>cn_panicked\<close>: a goroutine has closed a closed channel, which ends the process.
\<close>

record ('c, 'd) connection =
  cn_framer :: "('c, 'd) idle_framer"
  cn_closeChan_closed :: bool
  cn_goneAway :: bool
  cn_lastStreamChan :: bool
  cn_goAwayTimeout :: int
  cn_closeTimeout :: int
  cn_streams :: "stream_id \<rightharpoonup> nat"
  cn_store :: "go_stream list"
  cn_nextStreamId :: stream_id
  cn_receivedStreamId :: stream_id
  cn_pingId :: u32
  cn_pingChans :: "u32 \<rightharpoonup> nat"
  cn_pings :: "bool list"
  cn_hasShutdown :: bool
  cn_shutdown :: shutdown_state
  cn_shutdownChan_closed :: bool
  cn_tasks :: "go_task list"
  cn_panicked :: bool

definition NewConnectionWithOptions ::
  "('c, 'd) golib \<Rightarrow> writer \<Rightarrow> reader \<Rightarrow> bool \<Rightarrow> ('c, 'd) framer_option option list
   \<Rightarrow> go_error + ('c, 'd) connection" where
  "NewConnectionWithOptions lib w r server opts =
     (case NewFramerWithOptions lib w r opts of
        Inl err \<Rightarrow> Inl err
      | Inr f \<Rightarrow>
          (let (sid, rid, pid) = (if server then (2, 1, 2) else (1, 2, 1)) in
           Inr \<lparr>cn_framer = newIdleAwareFramer f, cn_closeChan_closed = False, cn_goneAway = False,
                cn_lastStreamChan = False, cn_goAwayTimeout = 0, cn_closeTimeout = 0,
                cn_streams = Map.empty, cn_store = [], cn_nextStreamId = sid,
                cn_receivedStreamId = rid, cn_pingId = pid, cn_pingChans = Map.empty,
                cn_pings = [], cn_hasShutdown = False, cn_shutdown = Sd_None,
                cn_shutdownChan_closed = False, cn_tasks = [], cn_panicked = False\<rparr>))"

definition NewConnection ::
  "('c, 'd) golib \<Rightarrow> writer \<Rightarrow> reader \<Rightarrow> bool \<Rightarrow> go_error + ('c, 'd) connection" where
  "NewConnection lib w r server = NewConnectionWithOptions lib w r server []"

text \<open>A stream in the store, its update, a new stream, a spawned goroutine, a frame written.\<close>

definition stream_at :: "('c, 'd) connection \<Rightarrow> nat \<Rightarrow> go_stream" where
  "stream_at s r = cn_store s ! r"

definition upd_stream :: "nat \<Rightarrow> (go_stream \<Rightarrow> go_stream) \<Rightarrow> ('c, 'd) connection \<Rightarrow> ('c, 'd) connection" where
  "upd_stream r g s = s\<lparr>cn_store := (cn_store s)[r := g (cn_store s ! r)]\<rparr>"

definition alloc_stream :: "go_stream \<Rightarrow> ('c, 'd) connection \<Rightarrow> nat \<times> ('c, 'd) connection" where
  "alloc_stream st s = (length (cn_store s), s\<lparr>cn_store := cn_store s @ [st]\<rparr>)"

definition spawn :: "go_task \<Rightarrow> ('c, 'd) connection \<Rightarrow> ('c, 'd) connection" where
  "spawn t s = s\<lparr>cn_tasks := cn_tasks s @ [t]\<rparr>"

definition cn_write :: "('c, 'd) golib \<Rightarrow> frame \<Rightarrow> ('c, 'd) connection \<Rightarrow> go_error option \<times> ('c, 'd) connection" where
  "cn_write lib fr s = (case iaf_WriteFrame lib fr (cn_framer s) of (err, i) \<Rightarrow> (err, s\<lparr>cn_framer := i\<rparr>))"

definition panics :: "('c, 'd) connection \<Rightarrow> ('c, 'd) connection" where
  "panics s = s\<lparr>cn_panicked := True\<rparr>"

text \<open>A control header as a caller makes it: the flags set, the other fields zero.\<close>

definition flags_header :: "u8 \<Rightarrow> control_frame_header" where
  "flags_header flags = \<lparr>cf_version = 0, cf_frameType = 0, cf_Flags = flags, cf_length = 0\<rparr>"

section \<open>Stream ids\<close>

definition getNextStreamId :: "('c, 'd) connection \<Rightarrow> stream_id \<times> ('c, 'd) connection" where
  "getNextStreamId s =
     (let sid = cn_nextStreamId s in
      if sid > 0x7fffffff then (0, s)
      else (sid, s\<lparr>cn_nextStreamId := cn_nextStreamId s + 2\<rparr>))"

definition PeekNextStreamId :: "('c, 'd) connection \<Rightarrow> stream_id" where
  "PeekNextStreamId s = cn_nextStreamId s"

definition validateStreamId :: "stream_id \<Rightarrow> ('c, 'd) connection \<Rightarrow> go_error option \<times> ('c, 'd) connection" where
  "validateStreamId rid s =
     (if rid > 0x7fffffff \<or> rid < cn_receivedStreamId s then (Some ErrInvalidStreamId, s)
      else (None, s\<lparr>cn_receivedStreamId := rid + 2\<rparr>))"

section \<open>The stream map\<close>

definition addStream :: "nat \<Rightarrow> ('c, 'd) connection \<Rightarrow> ('c, 'd) connection" where
  "addStream r s = s\<lparr>cn_streams := (cn_streams s)(sm_streamId (stream_at s r) \<mapsto> r)\<rparr>"

definition removeStream :: "nat \<Rightarrow> ('c, 'd) connection \<Rightarrow> ('c, 'd) connection" where
  "removeStream r s = s\<lparr>cn_streams := (cn_streams s)(sm_streamId (stream_at s r) := None)\<rparr>"

definition getStream :: "stream_id \<Rightarrow> ('c, 'd) connection \<Rightarrow> nat option" where
  "getStream sid s = cn_streams s sid"

definition getStreamPriority :: "stream_id \<Rightarrow> ('c, 'd) connection \<Rightarrow> u8" where
  "getStreamPriority sid s =
     (case getStream sid s of None \<Rightarrow> 7 | Some r \<Rightarrow> sm_priority (stream_at s r))"

text \<open>\<open>FindStream\<close>: \<open>None\<close> if it has to wait for the stream to come.\<close>

definition FindStream :: "u32 \<Rightarrow> ('c, 'd) connection \<Rightarrow> nat option option" where
  "FindStream sid s =
     (if cn_streams s sid = None \<and> sid \<ge> cn_receivedStreamId s then None
      else Some (cn_streams s sid))"

text \<open>
  \<open>close(s.closeChan)\<close> of a stream, and \<open>closeRemoteChannels\<close>, whose \<open>select\<close> finds out,
  under the stream's lock, whether that channel is closed already.
\<close>

definition close_stream :: "nat \<Rightarrow> ('c, 'd) connection \<Rightarrow> ('c, 'd) connection" where
  "close_stream r s =
     (if sm_closeClosed (stream_at s r) then panics s
      else upd_stream r (\<lambda>st. st\<lparr>sm_closeClosed := True\<rparr>) s)"

definition closeRemoteChannels :: "nat \<Rightarrow> ('c, 'd) connection \<Rightarrow> ('c, 'd) connection" where
  "closeRemoteChannels r s = (if sm_closeClosed (stream_at s r) then s else close_stream r s)"

lemma closeRemoteChannels_eq:
  "closeRemoteChannels r s = upd_stream r (\<lambda>st. st\<lparr>sm_closeClosed := True\<rparr>) s"
proof (cases "sm_closeClosed (stream_at s r)")
  case True
  then have "(cn_store s ! r)\<lparr>sm_closeClosed := True\<rparr> = cn_store s ! r" by (simp add: stream_at_def)
  with True show ?thesis by (simp add: closeRemoteChannels_def upd_stream_def)
qed (simp add: closeRemoteChannels_def close_stream_def)

definition remoteStreamFinish :: "nat \<Rightarrow> ('c, 'd) connection \<Rightarrow> ('c, 'd) connection" where
  "remoteStreamFinish r s =
     (let s = closeRemoteChannels r s in
      if sm_finished (stream_at s r) then removeStream r s else s)"

section \<open>Frames sent\<close>

definition fin_flag :: "bool \<Rightarrow> u8" where
  "fin_flag fin = (if fin then ControlFlagFin else 0)"

definition sendHeaders ::
  "('c, 'd) golib \<Rightarrow> http_header \<Rightarrow> nat \<Rightarrow> bool \<Rightarrow> ('c, 'd) connection \<Rightarrow> go_error option \<times> ('c, 'd) connection" where
  "sendHeaders lib hs r fin s =
     cn_write lib (Headers \<lparr>hd_CFHeader = flags_header (fin_flag fin),
       hd_StreamId = sm_streamId (stream_at s r), hd_Headers = hs\<rparr>) s"

definition sendReply ::
  "('c, 'd) golib \<Rightarrow> http_header \<Rightarrow> nat \<Rightarrow> bool \<Rightarrow> ('c, 'd) connection \<Rightarrow> go_error option \<times> ('c, 'd) connection" where
  "sendReply lib hs r fin s =
     cn_write lib (SynReply \<lparr>sr_CFHeader = flags_header (fin_flag fin),
       sr_StreamId = sm_streamId (stream_at s r), sr_Headers = hs\<rparr>) s"

definition sendResetFrame ::
  "('c, 'd) golib \<Rightarrow> u32 \<Rightarrow> stream_id \<Rightarrow> ('c, 'd) connection \<Rightarrow> go_error option \<times> ('c, 'd) connection" where
  "sendResetFrame lib status sid s =
     cn_write lib (RstStream \<lparr>rs_CFHeader = flags_header 0, rs_StreamId = sid, rs_Status = status\<rparr>) s"

definition sendReset ::
  "('c, 'd) golib \<Rightarrow> u32 \<Rightarrow> nat \<Rightarrow> ('c, 'd) connection \<Rightarrow> go_error option \<times> ('c, 'd) connection" where
  "sendReset lib status r s = sendResetFrame lib status (sm_streamId (stream_at s r)) s"

definition sendStream ::
  "('c, 'd) golib \<Rightarrow> nat \<Rightarrow> bool \<Rightarrow> ('c, 'd) connection \<Rightarrow> go_error option \<times> ('c, 'd) connection" where
  "sendStream lib r fin s =
     (let s = (if fin then upd_stream r (\<lambda>st. st\<lparr>sm_finished := True\<rparr>) s else s);
          parentId = (case sm_parent (stream_at s r) of None \<Rightarrow> 0 | Some p \<Rightarrow> sm_streamId (stream_at s p))
      in cn_write lib (SynStream \<lparr>ss_CFHeader = flags_header (fin_flag fin),
           ss_StreamId = sm_streamId (stream_at s r), ss_AssociatedToStreamId = parentId,
           ss_Priority = 0, ss_Slot = 0, ss_Headers = sm_headers (stream_at s r)\<rparr>) s)"

text \<open>
  \<open>CreateStream\<close> returns the stream, if one was made, and the error of \<open>sendStream\<close>.
\<close>

definition CreateStream ::
  "('c, 'd) golib \<Rightarrow> http_header \<Rightarrow> nat option \<Rightarrow> bool \<Rightarrow> ('c, 'd) connection
   \<Rightarrow> (nat option \<times> go_error option) \<times> ('c, 'd) connection" where
  "CreateStream lib hs parent fin s =
     (case getNextStreamId s of (sid, s) \<Rightarrow>
        if sid = 0 then ((None, Some (ErrMsg ''Unable to get new stream id'')), s)
        else case alloc_stream
            \<lparr>sm_streamId = sid, sm_parent = parent, sm_startClosed = False, sm_unread = None,
             sm_priority = 0, sm_headers = hs, sm_finished = False, sm_hasReplyCond = False,
             sm_replied = False, sm_closeClosed = False\<rparr> s of
          (r, s) \<Rightarrow> (case sendStream lib r fin (addStream r s) of (err, s) \<Rightarrow> ((Some r, err), s)))"

section \<open>Frames received: before they are queued\<close>

definition checkStreamFrame :: "syn_stream_frame \<Rightarrow> ('c, 'd) connection \<Rightarrow> bool \<times> ('c, 'd) connection" where
  "checkStreamFrame fr s =
     (if cn_goneAway s then (False, s)
      else case validateStreamId (ss_StreamId fr) s of
        (Some err, s) \<Rightarrow> (False, spawn (Reset_Task ProtocolError (ss_StreamId fr)) s)
      | (None, s) \<Rightarrow> (True, s))"

definition addStreamFrame :: "syn_stream_frame \<Rightarrow> ('c, 'd) connection \<Rightarrow> ('c, 'd) connection" where
  "addStreamFrame fr s =
     (let parent = (if ss_AssociatedToStreamId fr \<noteq> 0 then getStream (ss_AssociatedToStreamId fr) s else None)
      in case alloc_stream
          \<lparr>sm_streamId = ss_StreamId fr, sm_parent = parent, sm_startClosed = False, sm_unread = None,
           sm_priority = ss_Priority fr, sm_headers = ss_Headers fr,
           sm_finished = (cf_Flags (ss_CFHeader fr) AND ControlFlagUnidirectional \<noteq> 0),
           sm_hasReplyCond = True, sm_replied = False, sm_closeClosed = False\<rparr> s of
        (r, s) \<Rightarrow>
          addStream r (if cf_Flags (ss_CFHeader fr) AND ControlFlagFin \<noteq> 0
                       then closeRemoteChannels r s else s))"

section \<open>Closing\<close>

definition handleGoAwayFrame :: "go_away_frame \<Rightarrow> ('c, 'd) connection \<Rightarrow> go_error option \<times> ('c, 'd) connection" where
  "handleGoAwayFrame fr s =
     (if cn_goneAway s then (None, s)
      else let s = s\<lparr>cn_goneAway := True\<rparr>;
               s = (if cn_lastStreamChan s
                    then spawn (Notify_Task (getStream (ga_LastGoodStreamId fr) s)) s else s)
      in (None, spawn (Shutdown_Task (cn_goAwayTimeout s)) s))"

definition Close :: "('c, 'd) golib \<Rightarrow> ('c, 'd) connection \<Rightarrow> go_error option \<times> ('c, 'd) connection" where
  "Close lib s =
     (if cn_goneAway s then (None, s)
      else let s = s\<lparr>cn_goneAway := True\<rparr>;
               lastStreamId = (if cn_receivedStreamId s > 2 then cn_receivedStreamId s - 2 else 0)
      in case cn_write lib (GoAway \<lparr>ga_CFHeader = flags_header 0, ga_LastGoodStreamId = lastStreamId,
             ga_Status = GoAwayOK\<rparr>) s of
           (err, s) \<Rightarrow> (err, spawn (Shutdown_Task (cn_closeTimeout s)) s))"

definition NotifyClose :: "int \<Rightarrow> ('c, 'd) connection \<Rightarrow> ('c, 'd) connection" where
  "NotifyClose timeout s = s\<lparr>cn_goAwayTimeout := timeout, cn_lastStreamChan := True\<rparr>"

definition SetCloseTimeout :: "int \<Rightarrow> ('c, 'd) connection \<Rightarrow> ('c, 'd) connection" where
  "SetCloseTimeout timeout s = s\<lparr>cn_closeTimeout := timeout\<rparr>"

text \<open>
  The last part of \<open>Serve\<close>, under the stream lock: every stream's remote end is closed, and
  the map is emptied.  The order in which Go visits the map does not matter to the result.
\<close>

definition close_if_mapped :: "nat \<Rightarrow> ('c, 'd) connection \<Rightarrow> ('c, 'd) connection" where
  "close_if_mapped r s =
     (if cn_streams s (sm_streamId (stream_at s r)) = Some r then closeRemoteChannels r s else s)"

definition close_all_streams :: "('c, 'd) connection \<Rightarrow> ('c, 'd) connection" where
  "close_all_streams s =
     (fold close_if_mapped [0..<length (cn_store s)] s)\<lparr>cn_streams := Map.empty\<rparr>"

text \<open>
  The network connection is closed: no more bytes come in, and every write fails.
\<close>

definition netconn_Close :: "('c, 'd) connection \<Rightarrow> ('c, 'd) connection" where
  "netconn_Close s =
     (let i = cn_framer s; f = if_f i in
      s\<lparr>cn_framer := i\<lparr>if_f := f\<lparr>f_w := (f_w f)\<lparr>wr_fault := Some (0, NetError 0)\<rparr>,
          f_r := \<lparr>rd_bytes = [], rd_end = NetError 0\<rparr>\<rparr>\<rparr>\<rparr>)"

text \<open>
  \<open>shutdown\<close>: its first part, under the lock; its goroutine, which sees that there are no
  streams and ends (\<open>None\<close>: it waits, or has ended); and what follows the \<open>select\<close>.  \<open>err\<close> is what the network
  connection's \<open>Close\<close> returns.  Times are in nanoseconds.
\<close>

definition shutdown_begin :: "int \<Rightarrow> ('c, 'd) connection \<Rightarrow> ('c, 'd) connection" where
  "shutdown_begin t s =
     (if cn_hasShutdown s then s else s\<lparr>cn_hasShutdown := True, cn_shutdown := Sd_Waiting t False\<rparr>)"

definition shutdown_seen :: "('c, 'd) connection \<Rightarrow> ('c, 'd) connection option" where
  "shutdown_seen s =
     (if cn_streams s \<noteq> Map.empty then None
      else case cn_shutdown s of
        Sd_Waiting t False \<Rightarrow> Some (s\<lparr>cn_shutdown := Sd_Waiting t True\<rparr>)
      | Sd_Forced t err False \<Rightarrow> Some (s\<lparr>cn_shutdown := Sd_Forced t err True\<rparr>)
      | _ \<Rightarrow> None)"

definition second :: int where "second = 10 ^ 9"

definition report_duration :: "int \<Rightarrow> int" where
  "report_duration closeTimeout =
     (let duration = (if closeTimeout > second then closeTimeout else second) in
      if duration > 10 * 60 * second then 10 * 60 * second else duration)"

definition close_shutdownChan :: "('c, 'd) connection \<Rightarrow> ('c, 'd) connection" where
  "close_shutdownChan s =
     (if cn_shutdownChan_closed s then panics s
      else s\<lparr>cn_shutdownChan_closed := True, cn_shutdown := Sd_Done\<rparr>)"

definition shutdown_finish :: "int \<Rightarrow> go_error option \<Rightarrow> ('c, 'd) connection \<Rightarrow> ('c, 'd) connection" where
  "shutdown_finish t err s =
     (case err of
        None \<Rightarrow> close_shutdownChan s
      | Some e \<Rightarrow> s\<lparr>cn_shutdown := Sd_Reporting e (report_duration t)\<rparr>)"

definition shutdown_graceful :: "go_error option \<Rightarrow> ('c, 'd) connection \<Rightarrow> ('c, 'd) connection option" where
  "shutdown_graceful err s =
     (case cn_shutdown s of
        Sd_Waiting t True \<Rightarrow> Some (shutdown_finish t err (netconn_Close s)) | _ \<Rightarrow> None)"

definition shutdown_timeout :: "go_error option \<Rightarrow> ('c, 'd) connection \<Rightarrow> ('c, 'd) connection option" where
  "shutdown_timeout err s =
     (case cn_shutdown s of
        Sd_Waiting t b \<Rightarrow> if t > 0 then Some ((netconn_Close s)\<lparr>cn_shutdown := Sd_Forced t err b\<rparr>) else None
      | _ \<Rightarrow> None)"

definition shutdown_cleared :: "('c, 'd) connection \<Rightarrow> ('c, 'd) connection option" where
  "shutdown_cleared s =
     (case cn_shutdown s of Sd_Forced t err True \<Rightarrow> Some (shutdown_finish t err s) | _ \<Rightarrow> None)"

text \<open>The error is taken by a \<open>Wait\<close>, or the time for that is up: the channel is closed.\<close>

definition shutdown_reported :: "('c, 'd) connection \<Rightarrow> ('c, 'd) connection option" where
  "shutdown_reported s =
     (case cn_shutdown s of Sd_Reporting err d \<Rightarrow> Some (close_shutdownChan s) | _ \<Rightarrow> None)"

text \<open>
  \<open>Wait\<close> and the end of \<open>CloseWait\<close>, given what their \<open>select\<close> has chosen: the error
  \<open>shutdown\<close> reports, the closed channel, or the timeout.
\<close>

datatype shutdown_choice = Shut_Error go_error | Shut_Closed | Shut_Timed_Out

definition cn_Wait :: "shutdown_choice \<Rightarrow> go_error option" where
  "cn_Wait chosen =
     (case chosen of Shut_Error err \<Rightarrow> Some err | Shut_Closed \<Rightarrow> None | Shut_Timed_Out \<Rightarrow> Some ErrTimeout)"

definition CloseWait ::
  "('c, 'd) golib \<Rightarrow> shutdown_choice \<Rightarrow> ('c, 'd) connection \<Rightarrow> go_error option \<times> ('c, 'd) connection" where
  "CloseWait lib chosen s =
     (case Close lib s of
        (Some err, s) \<Rightarrow> (Some err, s)
      | (None, s) \<Rightarrow> (cn_Wait chosen, s))"

section \<open>Idle connections\<close>

definition SetIdleTimeout :: "int \<Rightarrow> ('c, 'd) connection \<Rightarrow> ('c, 'd) connection option" where
  "SetIdleTimeout t s = map_option (\<lambda>i. s\<lparr>cn_framer := i\<rparr>) (setIdleTimeout t (cn_framer s))"

text \<open>
  The case \<open>expired\<close> of the monitor: the map is emptied, and a goroutine resets the streams
  that were in it, in the order \<open>rs\<close> in which Go visits the map, and then closes the connection.
\<close>

definition idle_expire :: "nat list \<Rightarrow> ('c, 'd) connection \<Rightarrow> ('c, 'd) connection" where
  "idle_expire rs s =
     spawn (Idle_Task rs) (s\<lparr>cn_framer := (cn_framer s)\<lparr>if_expired := False\<rparr>, cn_streams := Map.empty\<rparr>)"

section \<open>Pings\<close>

text \<open>
  \<open>Ping\<close> reads the id before it takes the lock, so the read is a step of its own; then,
  under the lock, the next id is set and a channel made.  At the end the channel is removed.
\<close>

definition ping_read :: "('c, 'd) connection \<Rightarrow> u32" where
  "ping_read s = cn_pingId s"

definition ping_register :: "u32 \<Rightarrow> ('c, 'd) connection \<Rightarrow> nat \<times> ('c, 'd) connection" where
  "ping_register pid s =
     (length (cn_pings s),
      s\<lparr>cn_pingId := (if cn_pingId s > 0x7ffffffe then cn_pingId s - 0x7ffffffe else cn_pingId s + 2),
        cn_pingChans := (cn_pingChans s)(pid \<mapsto> length (cn_pings s)),
        cn_pings := cn_pings s @ [False]\<rparr>)"

definition ping_send :: "('c, 'd) golib \<Rightarrow> u32 \<Rightarrow> ('c, 'd) connection \<Rightarrow> go_error option \<times> ('c, 'd) connection" where
  "ping_send lib pid s = cn_write lib (Ping \<lparr>pg_CFHeader = flags_header 0, pg_Id = pid\<rparr>) s"

definition ping_unregister :: "u32 \<Rightarrow> ('c, 'd) connection \<Rightarrow> ('c, 'd) connection" where
  "ping_unregister pid s = s\<lparr>cn_pingChans := (cn_pingChans s)(pid := None)\<rparr>"

text \<open>\<open>close\<close> of a channel that is closed already is a panic: \<open>None\<close>.\<close>

definition handlePingFrame ::
  "('c, 'd) golib \<Rightarrow> ping_frame \<Rightarrow> ('c, 'd) connection \<Rightarrow> (go_error option \<times> ('c, 'd) connection) option" where
  "handlePingFrame lib fr s =
     (if cn_pingId s AND 1 \<noteq> pg_Id fr AND 1 then Some (cn_write lib (Ping fr) s)
      else case cn_pingChans s (pg_Id fr) of
        None \<Rightarrow> Some (None, s)
      | Some ch \<Rightarrow>
          if cn_pings s ! ch then None
          else Some (None, s\<lparr>cn_pings := (cn_pings s)[ch := True]\<rparr>))"

end
