(* ===== verification/Stream_Ops.thy ===== *)
theory Stream_Ops
  imports Connection
begin

text \<open>
  The methods of \<^verbatim>\<open>stream.go\<close>, on the stream named by \<open>r\<close>.  A call that would wait is
  \<open>None\<close>.  A method with a \<open>select\<close> on the stream's channels takes the branch that was
  chosen as an argument: \<open>Some x\<close> for a value received, \<open>None\<close> for the closed
  \<open>closeChan\<close>; which branches can be chosen is for the step relation to say.
\<close>

section \<open>Sending\<close>

text \<open>
  \<open>waitWriteReply\<close>: a stream the other side created may write only after the reply.
\<close>

definition may_write :: "nat \<Rightarrow> ('c, 'd) connection \<Rightarrow> bool" where
  "may_write r s = (sm_hasReplyCond (stream_at s r) \<longrightarrow> sm_replied (stream_at s r))"

definition WriteData ::
  "('c, 'd) golib \<Rightarrow> byte list \<Rightarrow> bool \<Rightarrow> nat \<Rightarrow> ('c, 'd) connection \<Rightarrow> (go_error option \<times> ('c, 'd) connection) option" where
  "WriteData lib data fin r s =
     (if \<not> may_write r s then None
      else if fin \<and> sm_finished (stream_at s r) then Some (Some ErrWriteClosedStream, s)
      else let s = (if fin then upd_stream r (\<lambda>st. st\<lparr>sm_finished := True\<rparr>) s else s)
      in Some (cn_write lib (Data \<lparr>df_StreamId = sm_streamId (stream_at s r),
           df_Flags = (if fin then DataFlagFin else 0), df_Data = data\<rparr>) s))"

text \<open>\<open>Write\<close> also says how many bytes were written: all, or none if there is an error.\<close>

definition Write ::
  "('c, 'd) golib \<Rightarrow> byte list \<Rightarrow> nat \<Rightarrow> ('c, 'd) connection \<Rightarrow> ((nat \<times> go_error option) \<times> ('c, 'd) connection) option" where
  "Write lib data r s =
     (case WriteData lib data False r s of
        None \<Rightarrow> None
      | Some (err, s) \<Rightarrow> Some ((if err = None then length data else 0, err), s))"

text \<open>
  \<open>Close\<close> looks at \<open>closeChan\<close> first, and then writes; other goroutines may come in between.
\<close>

definition close_check :: "nat \<Rightarrow> ('c, 'd) connection \<Rightarrow> ('c, 'd) connection" where
  "close_check r s = (if sm_closeClosed (stream_at s r) then removeStream r s else s)"

definition s_Close :: "('c, 'd) golib \<Rightarrow> nat \<Rightarrow> ('c, 'd) connection \<Rightarrow> (go_error option \<times> ('c, 'd) connection) option" where
  "s_Close lib r s = WriteData lib [] True r (close_check r s)"

definition resetStream :: "('c, 'd) golib \<Rightarrow> nat \<Rightarrow> ('c, 'd) connection \<Rightarrow> go_error option \<times> ('c, 'd) connection" where
  "resetStream lib r s =
     (let s = closeRemoteChannels r s in
      if sm_finished (stream_at s r) then (None, s)
      else let s = upd_stream r (\<lambda>st. st\<lparr>sm_finished := True\<rparr>) s
      in cn_write lib (RstStream \<lparr>rs_CFHeader = flags_header 0,
           rs_StreamId = sm_streamId (stream_at s r), rs_Status = Cancel\<rparr>) s)"

definition Reset :: "('c, 'd) golib \<Rightarrow> nat \<Rightarrow> ('c, 'd) connection \<Rightarrow> go_error option \<times> ('c, 'd) connection" where
  "Reset lib r s = resetStream lib r (removeStream r s)"

definition CreateSubStream ::
  "('c, 'd) golib \<Rightarrow> http_header \<Rightarrow> bool \<Rightarrow> nat \<Rightarrow> ('c, 'd) connection
   \<Rightarrow> (nat option \<times> go_error option) \<times> ('c, 'd) connection" where
  "CreateSubStream lib hs fin r s = CreateStream lib hs (Some r) fin s"

definition SetPriority :: "u8 \<Rightarrow> nat \<Rightarrow> ('c, 'd) connection \<Rightarrow> ('c, 'd) connection" where
  "SetPriority priority r s = upd_stream r (\<lambda>st. st\<lparr>sm_priority := priority\<rparr>) s"

definition SendHeader ::
  "('c, 'd) golib \<Rightarrow> http_header \<Rightarrow> bool \<Rightarrow> nat \<Rightarrow> ('c, 'd) connection \<Rightarrow> go_error option \<times> ('c, 'd) connection" where
  "SendHeader lib hs fin r s = sendHeaders lib hs r fin s"

definition SendReply ::
  "('c, 'd) golib \<Rightarrow> http_header \<Rightarrow> bool \<Rightarrow> nat \<Rightarrow> ('c, 'd) connection \<Rightarrow> go_error option \<times> ('c, 'd) connection" where
  "SendReply lib hs fin r s =
     (if \<not> sm_hasReplyCond (stream_at s r) then (Some (ErrMsg ''cannot reply on initiated stream''), s)
      else if sm_replied (stream_at s r) then (None, s)
      else case sendReply lib hs r fin s of
        (Some err, s) \<Rightarrow> (Some err, s)
      | (None, s) \<Rightarrow> (None, upd_stream r (\<lambda>st. st\<lparr>sm_replied := True\<rparr>) s))"

definition Refuse :: "('c, 'd) golib \<Rightarrow> nat \<Rightarrow> ('c, 'd) connection \<Rightarrow> go_error option \<times> ('c, 'd) connection" where
  "Refuse lib r s =
     (if sm_replied (stream_at s r) then (None, s)
      else sendReset lib RefusedStream r (upd_stream r (\<lambda>st. st\<lparr>sm_replied := True\<rparr>) s))"

definition s_Cancel :: "('c, 'd) golib \<Rightarrow> nat \<Rightarrow> ('c, 'd) connection \<Rightarrow> go_error option \<times> ('c, 'd) connection" where
  "s_Cancel lib r s = sendReset lib Cancel r s"

section \<open>Receiving\<close>

text \<open>
  \<open>Read\<close> into a buffer of \<open>n\<close> bytes: the bytes copied, or the error.  If there is unread
  data, the channels are not looked at.
\<close>

definition copy_unread :: "nat \<Rightarrow> byte list \<Rightarrow> nat \<Rightarrow> ('c, 'd) connection \<Rightarrow> byte list \<times> ('c, 'd) connection" where
  "copy_unread n u r s =
     (let k = min n (length u) in
      (take k u, upd_stream r (\<lambda>st. st\<lparr>sm_unread := (if k < length u then Some (drop k u) else None)\<rparr>) s))"

definition s_Read ::
  "nat \<Rightarrow> byte list option \<Rightarrow> nat \<Rightarrow> ('c, 'd) connection \<Rightarrow> (go_error + byte list) \<times> ('c, 'd) connection" where
  "s_Read n chosen r s =
     (case sm_unread (stream_at s r) of
        Some u \<Rightarrow> (case copy_unread n u r s of (bs, s) \<Rightarrow> (Inr bs, s))
      | None \<Rightarrow> (case chosen of
          None \<Rightarrow> (Inl EOF, s)
        | Some d \<Rightarrow> (case copy_unread n d r s of (bs, s) \<Rightarrow> (Inr bs, s))))"

definition ReadData ::
  "byte list option \<Rightarrow> nat \<Rightarrow> ('c, 'd) connection \<Rightarrow> (go_error + byte list) \<times> ('c, 'd) connection" where
  "ReadData chosen r s =
     (if sm_unread (stream_at s r) \<noteq> None then (Inl ErrUnreadPartialData, s)
      else case chosen of None \<Rightarrow> (Inl EOF, s) | Some d \<Rightarrow> (Inr d, s))"

definition ReceiveHeader :: "http_header option \<Rightarrow> go_error + http_header" where
  "ReceiveHeader chosen = (case chosen of None \<Rightarrow> Inl (ErrMsg ''stream closed'') | Some h \<Rightarrow> Inr h)"

text \<open>
  \<open>WaitTimeout\<close>: a closed \<open>startChan\<close> gives nil at once; otherwise an error is received
  from the worker, or the time is up.
\<close>

datatype wait_choice = Start_Closed | Start_Error go_error | Timed_Out

definition WaitTimeout :: "wait_choice \<Rightarrow> go_error option" where
  "WaitTimeout chosen =
     (case chosen of Start_Closed \<Rightarrow> None | Start_Error err \<Rightarrow> Some err | Timed_Out \<Rightarrow> Some ErrTimeout)"

text \<open>\<open>Wait\<close> is \<open>WaitTimeout\<close> without a timeout: \<open>Timed_Out\<close> cannot be chosen.\<close>

definition s_Wait :: "wait_choice \<Rightarrow> go_error option" where
  "s_Wait chosen = WaitTimeout chosen"

definition IsFinished :: "nat \<Rightarrow> ('c, 'd) connection \<Rightarrow> bool" where
  "IsFinished r s = sm_finished (stream_at s r)"

definition Parent :: "nat \<Rightarrow> ('c, 'd) connection \<Rightarrow> nat option" where
  "Parent r s = sm_parent (stream_at s r)"

definition s_Headers :: "nat \<Rightarrow> ('c, 'd) connection \<Rightarrow> http_header" where
  "s_Headers r s = sm_headers (stream_at s r)"

definition Identifier :: "nat \<Rightarrow> ('c, 'd) connection \<Rightarrow> u32" where
  "Identifier r s = sm_streamId (stream_at s r)"

end
