(* ===== verification/Worker.thy ===== *)
theory Worker
  imports Stream_Ops
begin

text \<open>
  The frame handlers of \<^verbatim>\<open>connection.go\<close>, which run in the frame workers.  A handler may
  stop in the middle to wait for another goroutine: on a send over one of a stream's unbuffered
  channels, or in the application's stream handler.  Where it waits is a \<open>wait\<close>; what it
  does afterwards is \<open>resume\<close>.
\<close>

datatype wait =
    Wait_Handler nat
  | Wait_Start nat
  | Wait_Header nat http_header bool
  | Wait_Data nat "byte list" bool

text \<open>\<open>Panicked\<close>: the handler closed a closed channel, which ends the process.\<close>

datatype 's handled =
    Panicked
  | Returned "go_error option" 's
  | Suspended wait 's

text \<open>\<open>close(ch)\<close> for the start channel of a stream.\<close>

definition close_start :: "nat \<Rightarrow> ('c, 'd) connection \<Rightarrow> ('c, 'd) connection option" where
  "close_start r s =
     (if sm_startClosed (stream_at s r) then None
      else Some (upd_stream r (\<lambda>st. st\<lparr>sm_startClosed := True\<rparr>) s))"

definition returns :: "(go_error option \<times> 's) \<Rightarrow> 's handled" where
  "returns x = (case x of (err, s) \<Rightarrow> Returned err s)"

lemma returns_simp [simp]: "returns (err, s) = Returned err s"
  by (simp add: returns_def)

definition handleStreamFrame :: "syn_stream_frame \<Rightarrow> ('c, 'd) connection \<Rightarrow> ('c, 'd) connection handled" where
  "handleStreamFrame fr s =
     (case getStream (ss_StreamId fr) s of
        None \<Rightarrow> Returned (Some (ErrMsg ''Missing stream'')) s
      | Some r \<Rightarrow> Suspended (Wait_Handler r) s)"

definition handleReplyFrame :: "syn_reply_frame \<Rightarrow> ('c, 'd) connection \<Rightarrow> ('c, 'd) connection handled" where
  "handleReplyFrame fr s =
     (case getStream (sr_StreamId fr) s of
        None \<Rightarrow> Returned None s
      | Some r \<Rightarrow>
          if sm_replied (stream_at s r) then Returned None s
          else let s = upd_stream r (\<lambda>st. st\<lparr>sm_replied := True\<rparr>) s;
                   s = (if cf_Flags (sr_CFHeader fr) AND ControlFlagFin \<noteq> 0 then remoteStreamFinish r s else s)
          in case close_start r s of None \<Rightarrow> Panicked | Some s \<Rightarrow> Returned None s)"

definition finish_stream :: "nat \<Rightarrow> ('c, 'd) connection \<Rightarrow> ('c, 'd) connection" where
  "finish_stream r s = upd_stream r (\<lambda>st. st\<lparr>sm_finished := True\<rparr>) s"

definition handleResetFrame :: "rst_stream_frame \<Rightarrow> ('c, 'd) connection \<Rightarrow> ('c, 'd) connection handled" where
  "handleResetFrame fr s =
     (case getStream (rs_StreamId fr) s of
        None \<Rightarrow> Returned None s
      | Some r \<Rightarrow>
          let s = closeRemoteChannels r (removeStream r s) in
          if \<not> sm_replied (stream_at s r)
          then Suspended (Wait_Start r) (upd_stream r (\<lambda>st. st\<lparr>sm_replied := True\<rparr>) s)
          else Returned None (finish_stream r s))"

definition handleHeaderFrame :: "headers_frame \<Rightarrow> ('c, 'd) connection \<Rightarrow> ('c, 'd) connection handled" where
  "handleHeaderFrame fr s =
     (case getStream (hd_StreamId fr) s of
        None \<Rightarrow> Returned None s
      | Some r \<Rightarrow>
          if \<not> sm_replied (stream_at s r) then Returned None s
          else Suspended (Wait_Header r (hd_Headers fr) (cf_Flags (hd_CFHeader fr) AND ControlFlagFin \<noteq> 0)) s)"

definition data_fin :: "nat \<Rightarrow> bool \<Rightarrow> ('c, 'd) connection \<Rightarrow> ('c, 'd) connection" where
  "data_fin r fin s = (if fin then remoteStreamFinish r s else s)"

definition handleDataFrame :: "data_frame \<Rightarrow> ('c, 'd) connection \<Rightarrow> ('c, 'd) connection handled" where
  "handleDataFrame fr s =
     (case getStream (df_StreamId fr) s of
        None \<Rightarrow> Returned None s
      | Some r \<Rightarrow>
          if \<not> sm_replied (stream_at s r) then Returned None s
          else let fin = (df_Flags fr AND DataFlagFin \<noteq> 0) in
            if length (df_Data fr) > 0 then Suspended (Wait_Data r (df_Data fr) fin) s
            else Returned None (data_fin r fin s))"

text \<open>The type switch of \<open>frameHandler\<close>.\<close>

fun handleFrame :: "('c, 'd) golib \<Rightarrow> frame \<Rightarrow> ('c, 'd) connection \<Rightarrow> ('c, 'd) connection handled" where
  "handleFrame lib (SynStream fr) s = handleStreamFrame fr s"
| "handleFrame lib (SynReply fr) s = handleReplyFrame fr s"
| "handleFrame lib (Data fr) s = handleDataFrame fr s"
| "handleFrame lib (RstStream fr) s = handleResetFrame fr s"
| "handleFrame lib (Headers fr) s = handleHeaderFrame fr s"
| "handleFrame lib (Ping fr) s = (case handlePingFrame lib fr s of None \<Rightarrow> Panicked | Some x \<Rightarrow> returns x)"
| "handleFrame lib (GoAway fr) s = returns (handleGoAwayFrame fr s)"
| "handleFrame lib _ s = Returned (Some (ErrMsg ''unhandled frame type'')) s"

text \<open>
  After the wait: \<open>taken\<close> says that the value was taken by a receiver; otherwise the branch
  of the closed \<open>closeChan\<close> was chosen.
\<close>

fun resume :: "wait \<Rightarrow> bool \<Rightarrow> ('c, 'd) connection \<Rightarrow> ('c, 'd) connection handled" where
  "resume (Wait_Handler r) taken s = Returned None s"
| "resume (Wait_Start r) taken s =
     (case close_start r s of None \<Rightarrow> Panicked | Some s \<Rightarrow> Returned None (finish_stream r s))"
| "resume (Wait_Header r hs fin) taken s =
     Returned None (if taken \<and> fin then remoteStreamFinish r s else s)"
| "resume (Wait_Data r d fin) taken s = Returned None (data_fin r fin s)"

end
