(* ===== verification/Conn_Ids.thy ===== *)
theory Conn_Ids
  imports Worker Spdy_Session
begin

text \<open>
  Identifiers: the stream ids a connection hands out and accepts, the id its \<open>GOAWAY\<close>
  names, and ping ids.
\<close>

lemma cn_write_sel:
  assumes "cn_write lib fr s = (err, s')"
  shows "cn_streams s' = cn_streams s" "cn_store s' = cn_store s"
    "cn_nextStreamId s' = cn_nextStreamId s" "cn_receivedStreamId s' = cn_receivedStreamId s"
    "cn_goneAway s' = cn_goneAway s" "cn_pingChans s' = cn_pingChans s" "cn_pings s' = cn_pings s"
    "cn_pingId s' = cn_pingId s"
  using assms by (auto simp: cn_write_def split: prod.splits)

section \<open>Stream ids of our own\<close>

fun next_ids :: "nat \<Rightarrow> ('c, 'd) connection \<Rightarrow> stream_id list" where
  "next_ids 0 s = []"
| "next_ids (Suc n) s = (case getNextStreamId s of (sid, s) \<Rightarrow> sid # next_ids n s)"

definition first_id :: "bool \<Rightarrow> nat" where
  "first_id server = (if server then 2 else 1)"

definition nth_id :: "bool \<Rightarrow> nat \<Rightarrow> nat" where
  "nth_id server k = (if first_id server + 2 * k \<le> 2 ^ 31 - 1 then first_id server + 2 * k else 0)"

lemma new_conn:
  assumes "NewConnectionWithOptions lib w r server opts = Inr s"
  shows "unat (cn_nextStreamId s) = first_id server" "cn_receivedStreamId s = (if server then 1 else 2)"
    "unat (cn_pingId s) = first_id server" "\<not> cn_goneAway s" "if_open (cn_framer s)"
    "cn_streams s = Map.empty" "cn_store s = []" "cn_pings s = []" "cn_pingChans s = Map.empty"
  using assms by (auto simp: NewConnectionWithOptions_def first_id_def newIdleAwareFramer_def
      split: sum.splits prod.splits if_splits)

lemma next_ids_exhausted:
  "cn_nextStreamId s > 0x7fffffff \<Longrightarrow> next_ids n s = replicate n 0"
  by (induction n) (auto simp: getNextStreamId_def Let_def)

lemma next_ids_from:
  assumes "unat (cn_nextStreamId s) = first_id server + 2 * j"
    "first_id server + 2 * j \<le> 2 ^ 31 + 1"
  shows "map unat (next_ids n s) = map (nth_id server) [j..<j + n]"
  using assms
proof (induction n arbitrary: s j)
  case (Suc n)
  show ?case
  proof (cases "first_id server + 2 * j \<le> 2 ^ 31 - 1")
    case True
    have le: "\<not> cn_nextStreamId s > 0x7fffffff"
      using True Suc.prems by (simp add: word_less_nat_alt)
    let ?s = "s\<lparr>cn_nextStreamId := cn_nextStreamId s + 2\<rparr>"
    have "unat (cn_nextStreamId ?s) = first_id server + 2 * Suc j"
      using True Suc.prems by (simp add: unat_word_ariths)
    from Suc.IH [OF this] True Suc.prems le show ?thesis
      by (simp add: getNextStreamId_def Let_def nth_id_def upt_conv_Cons del: upt_Suc)
  next
    case False
    then have "cn_nextStreamId s > 0x7fffffff"
      using Suc.prems by (simp add: word_less_nat_alt)
    from next_ids_exhausted [OF this] have "map unat (next_ids (Suc n) s) = replicate (Suc n) 0"
      by (metis map_replicate unat_0)
    also have "\<dots> = map (nth_id server) [j..<j + Suc n]"
      using False by (intro replicate_eqI [symmetric]) (auto simp: nth_id_def)
    finally show ?thesis .
  qed
qed simp

text \<open>
  C12: The ids a connection hands out: the k-th call of \<open>getNextStreamId\<close> gives 1 + 2k for a
  client and 2 + 2k for a server as long as that fits in 31 bits, and 0 for ever after; so no
  stream id is handed out twice, they increase, and the two sides never choose the same.
\<close>

theorem stream_ids_handed_out:
  assumes "NewConnectionWithOptions lib w r server opts = Inr s"
  shows "map unat (next_ids n s) = map (nth_id server) [0..<n]"
  using next_ids_from [of s server 0 n] new_conn(1) [OF assms] by (simp add: first_id_def)

theorem stream_ids_handed_out_witness:
  "\<exists>s. NewConnectionWithOptions id_lib ex_writer (ex_reader []) True [] = Inr s \<and>
     map unat (next_ids 3 s) = [2, 4, 6]"
proof -
  obtain s where s: "NewConnectionWithOptions id_lib ex_writer (ex_reader []) True [] = Inr s"
    by (simp add: NewConnectionWithOptions_def NewFramerWithOptions_def newFramer_def id_lib_def)
  from stream_ids_handed_out [OF s, of 3] s show ?thesis
    by (simp add: nth_id_def first_id_def upt_rec)
qed

section \<open>Stream ids of the other side\<close>

text \<open>\<open>SYN_STREAM\<close> frames as they come in: the ids of those that are accepted.\<close>

fun accepted :: "syn_stream_frame list \<Rightarrow> ('c, 'd) connection \<Rightarrow> stream_id list \<times> ('c, 'd) connection" where
  "accepted [] s = ([], s)"
| "accepted (fr # frs) s =
     (case checkStreamFrame fr s of
        (True, s) \<Rightarrow> (case accepted frs (addStreamFrame fr s) of (ids, s) \<Rightarrow> (ss_StreamId fr # ids, s))
      | (False, s) \<Rightarrow> accepted frs s)"

lemma addStreamFrame_sel [simp]:
  "cn_receivedStreamId (addStreamFrame fr s) = cn_receivedStreamId s"
  "cn_goneAway (addStreamFrame fr s) = cn_goneAway s"
  "cn_framer (addStreamFrame fr s) = cn_framer s"
  "cn_nextStreamId (addStreamFrame fr s) = cn_nextStreamId s"
  by (simp_all add: addStreamFrame_def alloc_stream_def addStream_def closeRemoteChannels_eq
      upd_stream_def Let_def)

lemma checkStreamFrame_True:
  assumes "checkStreamFrame fr s = (True, s')"
  shows "\<not> cn_goneAway s \<and> s' = s\<lparr>cn_receivedStreamId := ss_StreamId fr + 2\<rparr> \<and>
     cn_receivedStreamId s \<le> ss_StreamId fr \<and> unat (ss_StreamId fr) < 2 ^ 31"
  using assms by (auto simp: checkStreamFrame_def validateStreamId_def not_less word_le_nat_alt
      word_less_nat_alt split: if_splits prod.splits option.splits)

lemma checkStreamFrame_False:
  "checkStreamFrame fr s = (False, s') \<Longrightarrow> cn_receivedStreamId s' = cn_receivedStreamId s \<and>
     cn_goneAway s' = cn_goneAway s \<and> cn_framer s' = cn_framer s"
  by (auto simp: checkStreamFrame_def validateStreamId_def spawn_def split: if_splits)

lemma accepted_inv:
  assumes "accepted frs s = (ids, s')"
  shows "sorted_wrt (\<lambda>a b. unat a + 2 \<le> unat b) ids \<and>
     (\<forall>i\<in>set ids. cn_receivedStreamId s \<le> i \<and> unat i < 2 ^ 31) \<and>
     cn_receivedStreamId s' = (if ids = [] then cn_receivedStreamId s else last ids + 2) \<and>
     cn_goneAway s' = cn_goneAway s \<and> cn_framer s' = cn_framer s"
  using assms
proof (induction frs arbitrary: s ids)
  case (Cons fr frs)
  obtain b s1 where c: "checkStreamFrame fr s = (b, s1)" by fastforce
  show ?case
  proof (cases b)
    case False
    with c Cons.prems have "accepted frs s1 = (ids, s')" by simp
    from Cons.IH [OF this] checkStreamFrame_False [of fr s s1] c False show ?thesis by simp
  next
    case True
    with c Cons.prems obtain js where js: "accepted frs (addStreamFrame fr s1) = (js, s')"
      "ids = ss_StreamId fr # js" by (auto split: prod.splits)
    from c True have "checkStreamFrame fr s = (True, s1)" by simp
    from checkStreamFrame_True [OF this] have t: "s1 = s\<lparr>cn_receivedStreamId := ss_StreamId fr + 2\<rparr>"
      "cn_receivedStreamId s \<le> ss_StreamId fr" "unat (ss_StreamId fr) < 2 ^ 31" by auto
    have "unat (ss_StreamId fr + 2) = unat (ss_StreamId fr) + 2"
      using t(3) by (simp add: unat_word_ariths)
    with Cons.IH [OF js(1)] t js(2) show ?thesis
      by (auto simp: word_le_nat_alt)
  qed
qed simp

text \<open>
  C13: The ids accepted from the other side increase, by two at least, and stay within 31 bits:
  of any sequence of \<open>SYN_STREAM\<close> frames, no id is accepted twice.
\<close>

theorem accepted_ids_increase:
  "case accepted frs s of (ids, s') \<Rightarrow>
     sorted_wrt (\<lambda>a b. unat a + 2 \<le> unat b) ids \<and> list_all (\<lambda>i. unat i < 2 ^ 31) ids \<and> distinct ids"
proof -
  obtain ids s' where a: "accepted frs s = (ids, s')" by fastforce
  from accepted_inv [OF a] have "sorted_wrt (\<lambda>a b. unat a + 2 \<le> unat b) ids"
    "list_all (\<lambda>i. unat i < 2 ^ 31) ids" by (auto simp: list_all_iff)
  moreover from this(1) have "distinct ids" by (induction ids) auto
  ultimately show ?thesis by (simp add: a)
qed

lemma GoAway_header:
  "concat (header_chunks \<lparr>cf_version = Version, cf_frameType = TypeGoAway, cf_Flags = 0, cf_length = 8\<rparr>) =
     [0x80, 3, 0, 7, 0, 0, 0, 8]"
  by (simp add: header_chunks_def pack24_def be16_def be32_def Version_def TypeGoAway_def)

lemma cn_write_GoAway:
  assumes "if_open (cn_framer s)" "f_w (if_f (cn_framer s)) = w" "wr_fault w = None"
  obtains s' where "cn_write lib (GoAway fr) s = (None, s')" "cn_goneAway s' = cn_goneAway s"
    "wr_out (f_w (if_f (cn_framer s'))) = wr_out w @ [0x80, 3, 0, 7, 0, 0, 0, 8] @
       be32 (ga_LastGoodStreamId fr) @ be32 (ga_Status fr)"
proof -
  let ?i = "cn_framer s" and ?h = "\<lparr>cf_version = Version, cf_frameType = TypeGoAway, cf_Flags = 0, cf_length = 8\<rparr>"
  obtain f where f: "write_GoAway (if_f ?i) fr = (None, f, fr\<lparr>ga_CFHeader := ?h\<rparr>)"
    "wr_out (f_w f) = wr_out w @ concat (header_chunks ?h) @ be32 (ga_LastGoodStreamId fr) @ be32 (ga_Status fr)"
    using assms(2,3) by (simp add: write_GoAway_def Let_def f_send_ok)
  then have "cn_write lib (GoAway fr) s = (None, s\<lparr>cn_framer := monitor_reset (?i\<lparr>if_f := f\<rparr>)\<rparr>)"
    using assms(1) by (simp add: cn_write_def iaf_WriteFrame_def)
  then show thesis by (rule that) (simp_all add: f(2) GoAway_header)
qed

text \<open>
  C14: The \<open>GOAWAY\<close> frame a connection sends on \<open>Close\<close> names the last stream it
  accepted, or 0 if there is none: after any \<open>SYN_STREAM\<close> frames on a new connection whose
  network end does not fail, exactly the 16 bytes of that frame go out; and closing again sends
  nothing.
\<close>

theorem close_sends_last_accepted:
  assumes "NewConnectionWithOptions lib w r server opts = Inr s0" "accepted frs s0 = (ids, s)"
    "f_w (if_f (cn_framer s0)) = w0" "wr_fault w0 = None" "Close lib s = (err, s')"
  shows "err = None \<and> cn_goneAway s' \<and>
     wr_out (f_w (if_f (cn_framer s'))) = wr_out w0 @ [0x80, 3, 0, 7, 0, 0, 0, 8] @
       be32 (if ids = [] then 0 else last ids) @ be32 0 \<and>
     Close lib s' = (None, s')"
proof -
  note n = new_conn [OF assms(1)] and a = accepted_inv [OF assms(2)]
  have lid: "(if cn_receivedStreamId s > 2 then cn_receivedStreamId s - 2 else 0) =
      (if ids = [] then 0 else last ids)"
  proof (cases "ids = []")
    case True
    with a n(2) show ?thesis by simp
  next
    case False
    then have "last ids \<in> set ids" by simp
    with a n(2) have "unat (last ids) < 2 ^ 31" "(if server then 1 else 2) \<le> last ids" by auto
    moreover from this have "unat (last ids + 2) = unat (last ids) + 2" "1 \<le> last ids"
      by (auto simp: unat_word_ariths word_le_nat_alt split: if_splits)
    ultimately have "last ids + 2 > 2" by (simp add: word_less_nat_alt word_le_nat_alt)
    with a False show ?thesis by simp
  qed
  have s: "\<not> cn_goneAway s" "if_open (cn_framer s)" "f_w (if_f (cn_framer s)) = w0"
    using a n assms(3) by simp_all
  let ?fr = "\<lparr>ga_CFHeader = flags_header 0, ga_LastGoodStreamId = (if ids = [] then 0 else last ids),
      ga_Status = GoAwayOK\<rparr>"
  have "if_open (cn_framer (s\<lparr>cn_goneAway := True\<rparr>))" "f_w (if_f (cn_framer (s\<lparr>cn_goneAway := True\<rparr>))) = w0"
    using s by simp_all
  from cn_write_GoAway [OF this assms(4), of lib ?fr] obtain s1 where
    s1: "cn_write lib (GoAway ?fr) (s\<lparr>cn_goneAway := True\<rparr>) = (None, s1)" "cn_goneAway s1"
    "wr_out (f_w (if_f (cn_framer s1))) = wr_out w0 @ [0x80, 3, 0, 7, 0, 0, 0, 8] @
      be32 (if ids = [] then 0 else last ids) @ be32 0" by (auto simp: GoAwayOK_def)
  have lid': "(if cn_receivedStreamId (s\<lparr>cn_goneAway := True\<rparr>) > 2
      then cn_receivedStreamId (s\<lparr>cn_goneAway := True\<rparr>) - 2 else 0) = (if ids = [] then 0 else last ids)"
    using lid by (simp split del: if_split cong: if_cong)
  have "Close lib s = (None, spawn (Shutdown_Task (cn_closeTimeout s1)) s1)"
    unfolding Close_def Let_def lid' using s(1) s1(1) by (simp split del: if_split cong: if_cong)
  with assms(5) s1 show ?thesis by (auto simp: spawn_def Close_def)
qed

definition ex_syn :: "stream_id \<Rightarrow> syn_stream_frame" where
  "ex_syn i = \<lparr>ss_CFHeader = flags_header 0, ss_StreamId = i, ss_AssociatedToStreamId = 0,
     ss_Priority = 0, ss_Slot = 0, ss_Headers = []\<rparr>"

theorem close_sends_last_accepted_witness:
  "\<exists>s0 s s'. NewConnectionWithOptions id_lib ex_writer (ex_reader []) True [] = Inr s0 \<and>
     accepted (map ex_syn [1, 5, 3]) s0 = ([1, 5], s) \<and> Close id_lib s = (None, s') \<and>
     wr_out (f_w (if_f (cn_framer s'))) = [0x80, 3, 0, 7, 0, 0, 0, 8, 0, 0, 0, 5, 0, 0, 0, 0]"
proof -
  obtain s0 where s0: "NewConnectionWithOptions id_lib ex_writer (ex_reader []) True [] = Inr s0"
    "f_w (if_f (cn_framer s0)) = ex_writer" "cn_receivedStreamId s0 = 1" "\<not> cn_goneAway s0"
    by (simp add: NewConnectionWithOptions_def NewFramerWithOptions_def newFramer_def id_lib_def newIdleAwareFramer_def)
  obtain ids s where a: "accepted (map ex_syn [1, 5, 3]) s0 = (ids, s)" by fastforce
  have ids: "ids = [1, 5]"
    using a s0(3,4) by (auto simp: ex_syn_def checkStreamFrame_def validateStreamId_def spawn_def split: prod.splits)
  obtain err s' where c: "Close id_lib s = (err, s')" by fastforce
  have "wr_fault ex_writer = None" "wr_out ex_writer = []" by (simp_all add: ex_writer_def)
  with close_sends_last_accepted [OF s0(1) a s0(2) _ c] s0(1) a c ids show ?thesis
    by (auto simp: be32_def)
qed

section \<open>Going away\<close>

text \<open>
  C15: Once a connection has gone away, by its own \<open>Close\<close> or by a \<open>GOAWAY\<close> from the
  other side, it accepts no stream any more and sends no second \<open>GOAWAY\<close>.
\<close>

theorem gone_away_refuses:
  assumes "s' = snd (Close lib s) \<or> s' = snd (handleGoAwayFrame fr s)"
  shows "cn_goneAway s' \<and> accepted frs s' = ([], s') \<and> Close lib s' = (None, s') \<and>
     handleGoAwayFrame fr' s' = (None, s')"
proof -
  have g: "cn_goneAway s'"
    using assms by (auto dest!: cn_write_sel(5) simp: Close_def handleGoAwayFrame_def spawn_def Let_def split: prod.splits)
  have "accepted frs s' = ([], s')"
    using g by (induction frs) (simp_all add: checkStreamFrame_def)
  with g show ?thesis by (simp add: Close_def handleGoAwayFrame_def)
qed

theorem gone_away_refuses_witness:
  "\<exists>s0. NewConnectionWithOptions id_lib ex_writer (ex_reader []) True [] = Inr s0 \<and>
     accepted [ex_syn 1] s0 = ([1], addStreamFrame (ex_syn 1) (s0\<lparr>cn_receivedStreamId := 3\<rparr>)) \<and>
     fst (accepted [ex_syn 1] (snd (Close id_lib s0))) = []"
proof -
  obtain s0 where s0: "NewConnectionWithOptions id_lib ex_writer (ex_reader []) True [] = Inr s0"
    "cn_receivedStreamId s0 = 1" "\<not> cn_goneAway s0"
    by (simp add: NewConnectionWithOptions_def NewFramerWithOptions_def newFramer_def id_lib_def newIdleAwareFramer_def)
  then have "accepted [ex_syn 1] s0 = ([1], addStreamFrame (ex_syn 1) (s0\<lparr>cn_receivedStreamId := 3\<rparr>))"
    by (simp add: ex_syn_def checkStreamFrame_def validateStreamId_def)
  moreover have "accepted [ex_syn 1] (snd (Close id_lib s0)) = ([], snd (Close id_lib s0))"
    using gone_away_refuses [of "snd (Close id_lib s0)" id_lib s0 _ "[ex_syn 1]"] by blast
  ultimately show ?thesis using s0(1) by (metis fst_conv)
qed

section \<open>Ping ids\<close>

text \<open>One ping after the other: its id, and the state once the ping is registered.\<close>

fun ping_ids :: "nat \<Rightarrow> ('c, 'd) connection \<Rightarrow> u32 list" where
  "ping_ids 0 s = []"
| "ping_ids (Suc n) s = (let pid = ping_read s in pid # ping_ids n (snd (ping_register pid s)))"

lemma ping_ids_from:
  assumes "unat (cn_pingId s) = first_id server + 2 * (j mod 2 ^ 30)"
  shows "map unat (ping_ids n s) = map (\<lambda>k. first_id server + 2 * (k mod 2 ^ 30)) [j..<j + n]"
  using assms
proof (induction n arbitrary: s j)
  case (Suc n)
  let ?s = "snd (ping_register (cn_pingId s) s)"
  have "unat (cn_pingId ?s) = first_id server + 2 * (Suc j mod 2 ^ 30)"
  proof (cases "Suc (j mod 2 ^ 30) = 2 ^ 30")
    case True
    then have top: "unat (cn_pingId s) = first_id server + 2 * (2 ^ 30 - 1)" "Suc j mod 2 ^ 30 = 0"
      using Suc.prems by (auto simp: mod_Suc)
    then have "0x7ffffffe < cn_pingId s" "unat (cn_pingId s - 0x7ffffffe) = unat (cn_pingId s) - 0x7ffffffe"
      by (auto simp: word_less_nat_alt word_le_nat_alt unat_sub first_id_def)
    with top show ?thesis by (simp add: ping_register_def)
  next
    case False
    then have m: "Suc j mod 2 ^ 30 = Suc (j mod 2 ^ 30)" by (simp add: mod_Suc)
    have "j mod 2 ^ 30 < 2 ^ 30" by simp
    with False have "Suc (j mod 2 ^ 30) < 2 ^ 30" by linarith
    with Suc.prems have "\<not> 0x7ffffffe < cn_pingId s" "unat (cn_pingId s + 2) = unat (cn_pingId s) + 2"
      by (simp_all add: word_less_nat_alt unat_word_ariths first_id_def)
    with Suc.prems m show ?thesis by (simp add: ping_register_def)
  qed
  from Suc.IH [OF this] Suc.prems show ?case
    by (simp add: ping_read_def Let_def upt_conv_Cons del: upt_Suc)
qed simp

text \<open>
  C18: The ids of successive pings: the k-th is 1 + 2 (k mod $2^{30}$) for a client and
  2 + 2 (k mod $2^{30}$) for a server.  So an id is never 0, has the side's parity for ever,
  across the wrap-around too, and does not come back for $2^{30}$ pings.
\<close>

theorem ping_ids_cycle:
  assumes "NewConnectionWithOptions lib w r server opts = Inr s"
  shows "map unat (ping_ids n s) = map (\<lambda>k. first_id server + 2 * (k mod 2 ^ 30)) [0..<n]"
  using ping_ids_from [of s server 0 n] new_conn(3) [OF assms] by simp

theorem ping_ids_cycle_witness:
  "\<exists>s. NewConnectionWithOptions id_lib ex_writer (ex_reader []) False [] = Inr s \<and>
     map unat (ping_ids 3 s) = [1, 3, 5]"
proof -
  obtain s where s: "NewConnectionWithOptions id_lib ex_writer (ex_reader []) False [] = Inr s"
    by (simp add: NewConnectionWithOptions_def NewFramerWithOptions_def newFramer_def id_lib_def)
  from ping_ids_cycle [OF s, of 3] s show ?thesis by (simp add: first_id_def upt_rec)
qed

lemma ping_register_parity: "cn_pingId (snd (ping_register pid s)) AND 1 = cn_pingId s AND 1"
proof -
  have "even (x - 0x7ffffffe) = even x" "even (x + 2) = even x" for x :: u32
    by simp_all
  then show ?thesis by (simp add: ping_register_def and_one_eq mod2_eq_if)
qed

text \<open>
  C20: Two \<open>Ping\<close> calls that overlap may use the same id, as each reads it before it takes
  the lock: if the second reads before the first has registered, both send the same id, the
  first one's channel is in the map no more, and the answer closes only the second one's.
\<close>

theorem overlapping_pings_collide:
  assumes "ping_read s = pid" "ping_register pid s = (ch1, s1)" "ping_register pid s1 = (ch2, s2)"
  shows "ch1 \<noteq> ch2 \<and> cn_pingChans s2 pid = Some ch2 \<and>
     (\<exists>s3. handlePingFrame lib \<lparr>pg_CFHeader = h, pg_Id = pid\<rparr> s2 = Some (None, s3) \<and>
        cn_pings s3 ! ch2 \<and> \<not> cn_pings s3 ! ch1)"
proof -
  have "cn_pingId s2 AND 1 = pid AND 1"
    using assms ping_register_parity [of pid s] ping_register_parity [of pid s1] by (simp add: ping_read_def)
  with assms show ?thesis by (auto simp: ping_register_def handlePingFrame_def nth_append)
qed

theorem overlapping_pings_collide_witness:
  "\<exists>s s1 s2 s3. NewConnectionWithOptions id_lib ex_writer (ex_reader []) False [] = Inr s \<and>
     ping_read s = 1 \<and> ping_register 1 s = (0, s1) \<and> ping_register 1 s1 = (1, s2) \<and>
     handlePingFrame id_lib \<lparr>pg_CFHeader = flags_header 0, pg_Id = 1\<rparr> s2 = Some (None, s3) \<and> \<not> cn_pings s3 ! 0"
proof -
  obtain s where s: "NewConnectionWithOptions id_lib ex_writer (ex_reader []) False [] = Inr s"
    "ping_read s = 1" "cn_pings s = []"
    by (simp add: NewConnectionWithOptions_def NewFramerWithOptions_def newFramer_def id_lib_def ping_read_def)
  obtain s1 where s1: "ping_register 1 s = (0, s1)" "length (cn_pings s1) = 1"
    using s(3) by (simp add: ping_register_def)
  obtain s2 where s2: "ping_register 1 s1 = (1, s2)" using s1(2) by (simp add: ping_register_def)
  from overlapping_pings_collide [OF s(2) s1(1) s2, of id_lib "flags_header 0"] s s1 s2 show ?thesis by auto
qed

text \<open>
  C19: A second answer to one ping that is handled before \<open>Ping\<close> has removed its channel
  closes a closed channel, which is a panic: the handler does not take the channel out of the
  map.  The answer \<open>fr\<close> is any frame with the id of a registered ping of this side.
\<close>

theorem duplicate_ping_reply_panics:
  assumes "cn_pingChans s (pg_Id fr) = Some ch" "ch < length (cn_pings s)"
    "pg_Id fr AND 1 = cn_pingId s AND 1" "handlePingFrame lib fr s = Some (err, s')"
  shows "handlePingFrame lib fr s' = None"
  using assms by (auto simp: handlePingFrame_def split: if_splits)

theorem duplicate_ping_reply_panics_witness:
  "\<exists>s s1 s2. NewConnectionWithOptions id_lib ex_writer (ex_reader []) False [] = Inr s \<and>
     ping_register (ping_read s) s = (0, s1) \<and>
     handlePingFrame id_lib \<lparr>pg_CFHeader = flags_header 0, pg_Id = 1\<rparr> s1 = Some (None, s2) \<and>
     handlePingFrame id_lib \<lparr>pg_CFHeader = flags_header 0, pg_Id = 1\<rparr> s2 = None"
proof -
  let ?fr = "\<lparr>pg_CFHeader = flags_header 0, pg_Id = 1\<rparr>"
  obtain s where s: "NewConnectionWithOptions id_lib ex_writer (ex_reader []) False [] = Inr s"
    "ping_read s = 1" "cn_pings s = []"
    by (simp add: NewConnectionWithOptions_def NewFramerWithOptions_def newFramer_def id_lib_def ping_read_def)
  obtain s1 where s1: "ping_register (ping_read s) s = (0, s1)" by (simp add: ping_register_def s(3))
  have 1: "cn_pingChans s1 (pg_Id ?fr) = Some 0" "0 < length (cn_pings s1)" "\<not> cn_pings s1 ! 0"
    using s1 s(2,3) by (auto simp: ping_register_def)
  have 2: "pg_Id ?fr AND 1 = cn_pingId s1 AND 1"
    using ping_register_parity [of "ping_read s" s] s1 s(2) by (simp add: ping_read_def)
  obtain s2 where s2: "handlePingFrame id_lib ?fr s1 = Some (None, s2)"
    using 1 2 by (simp add: handlePingFrame_def)
  from duplicate_ping_reply_panics [OF 1(1,2) 2 s2] s s1 s2 show ?thesis by blast
qed

end
