(* ===== verification/Transition.thy ===== *)
theory Transition
  imports Main
begin

text \<open>
  Transition systems whose steps show events, their runs, and invariants that relate the events
  of a run to the state it ends in.  The locale is the interface a property of all runs is
  proved through: what holds at the start and is kept by every step.
\<close>

inductive run :: "('s \<Rightarrow> bool) \<Rightarrow> ('s \<Rightarrow> 'e list \<Rightarrow> 's \<Rightarrow> bool) \<Rightarrow> 'e list \<Rightarrow> 's \<Rightarrow> bool"
  for start step where
  run_start: "start s \<Longrightarrow> run start step [] s"
| run_step: "run start step tr s \<Longrightarrow> step s es s' \<Longrightarrow> run start step (tr @ es) s'"

locale invariant_system =
  fixes start :: "'s \<Rightarrow> bool" and step :: "'s \<Rightarrow> 'e list \<Rightarrow> 's \<Rightarrow> bool" and inv :: "'s \<Rightarrow> bool"
  assumes inv_start: "start s \<Longrightarrow> inv s"
    and inv_step: "inv s \<Longrightarrow> step s es s' \<Longrightarrow> inv s'"
begin

lemma run_inv: "run start step tr s \<Longrightarrow> inv s"
  by (induction rule: run.induct) (auto intro: inv_start inv_step)

end

text \<open>An invariant of the events so far and the state, which may use one of the state alone.\<close>

locale trace_system = invariant_system +
  fixes tinv :: "'b list \<Rightarrow> 'a \<Rightarrow> bool"
  assumes tinv_start: "start s \<Longrightarrow> tinv [] s"
    and tinv_step: "inv s \<Longrightarrow> tinv tr s \<Longrightarrow> step s es s' \<Longrightarrow> tinv (tr @ es) s'"
begin

lemma run_tinv: "run start step tr s \<Longrightarrow> tinv tr s"
  by (induction rule: run.induct) (auto intro: tinv_start tinv_step run_inv)

end

end
