(* ===== verification/Serve.thy ===== *)
theory Serve
  imports Worker Priority Transition
begin

text \<open>
  \<open>Serve\<close>, the loop that reads frames, and its frame workers, as a transition system together
  with the application's calls.  What a goroutine does between two points where it may wait is
  one step.
\<close>

definition FRAME_WORKERS :: nat where "FRAME_WORKERS = 5"
definition QUEUE_SIZE :: nat where "QUEUE_SIZE = 50"

section \<open>Routing\<close>

datatype routed = Rejected | To_Queue nat u8 | Stop go_away_frame

definition partition_of :: "stream_id \<Rightarrow> nat" where
  "partition_of sid = unat (sid mod word_of_nat FRAME_WORKERS)"

definition stream_route :: "stream_id \<Rightarrow> nat \<Rightarrow> ('c, 'd) connection \<Rightarrow> routed \<times> nat \<times> ('c, 'd) connection" where
  "stream_route sid rr s = (To_Queue (partition_of sid) (getStreamPriority sid s), rr, s)"

text \<open>
  The type switch of \<open>Serve\<close>: the queue and the priority for a frame, the next
  \<open>partitionRoundRobin\<close>, and the connection, which changes for a \<open>SYN_STREAM\<close>.
\<close>

fun route :: "frame \<Rightarrow> nat \<Rightarrow> ('c, 'd) connection \<Rightarrow> routed \<times> nat \<times> ('c, 'd) connection" where
  "route (SynStream fr) rr s =
     (case checkStreamFrame fr s of
        (True, s) \<Rightarrow> (To_Queue (partition_of (ss_StreamId fr)) (ss_Priority fr), rr, addStreamFrame fr s)
      | (False, s) \<Rightarrow> (Rejected, rr, s))"
| "route (SynReply fr) rr s = stream_route (sr_StreamId fr) rr s"
| "route (Data fr) rr s = stream_route (df_StreamId fr) rr s"
| "route (RstStream fr) rr s = stream_route (rs_StreamId fr) rr s"
| "route (Headers fr) rr s = stream_route (hd_StreamId fr) rr s"
| "route (Ping fr) rr s = (To_Queue rr 0, (rr + 1) mod FRAME_WORKERS, s)"
| "route (GoAway fr) rr s = (Stop fr, rr, s)"
| "route _ rr s = (To_Queue rr 7, (rr + 1) mod FRAME_WORKERS, s)"

section \<open>The application's calls\<close>

text \<open>
  A call that looks at the state under one lock and writes under another is two calls here:
  \<open>Close\<close> of a stream is \<open>A_Close_Check\<close> and then \<open>A_WriteData [] True\<close>; \<open>Ping\<close> is three.
\<close>

datatype api_call =
    A_CreateStream http_header "nat option" bool
  | A_WriteData "byte list" bool nat
  | A_Close_Check nat
  | A_Reset nat
  | A_SetPriority u8 nat
  | A_SendHeader http_header bool nat
  | A_SendReply http_header bool nat
  | A_Refuse nat
  | A_Cancel nat
  | A_Close
  | A_NotifyClose int
  | A_SetCloseTimeout int
  | A_SetIdleTimeout int
  | A_Ping_Register u32
  | A_Ping_Send u32
  | A_Ping_Unregister u32

text \<open>The streams a call holds.\<close>

fun api_refs :: "api_call \<Rightarrow> nat list" where
  "api_refs (A_CreateStream hs p fin) = (case p of None \<Rightarrow> [] | Some r \<Rightarrow> [r])"
| "api_refs (A_WriteData d fin r) = [r]"
| "api_refs (A_Close_Check r) = [r]"
| "api_refs (A_Reset r) = [r]"
| "api_refs (A_SetPriority p r) = [r]"
| "api_refs (A_SendHeader hs fin r) = [r]"
| "api_refs (A_SendReply hs fin r) = [r]"
| "api_refs (A_Refuse r) = [r]"
| "api_refs (A_Cancel r) = [r]"
| "api_refs _ = []"

fun api_run :: "('c, 'd) golib \<Rightarrow> api_call \<Rightarrow> ('c, 'd) connection \<Rightarrow> ('c, 'd) connection option" where
  "api_run lib (A_CreateStream hs p fin) s = Some (snd (CreateStream lib hs p fin s))"
| "api_run lib (A_WriteData d fin r) s = map_option snd (WriteData lib d fin r s)"
| "api_run lib (A_Close_Check r) s = Some (close_check r s)"
| "api_run lib (A_Reset r) s = Some (snd (Reset lib r s))"
| "api_run lib (A_SetPriority p r) s = Some (SetPriority p r s)"
| "api_run lib (A_SendHeader hs fin r) s = Some (snd (SendHeader lib hs fin r s))"
| "api_run lib (A_SendReply hs fin r) s = Some (snd (SendReply lib hs fin r s))"
| "api_run lib (A_Refuse r) s = Some (snd (Refuse lib r s))"
| "api_run lib (A_Cancel r) s = Some (snd (s_Cancel lib r s))"
| "api_run lib A_Close s = Some (snd (Close lib s))"
| "api_run lib (A_NotifyClose t) s = Some (NotifyClose t s)"
| "api_run lib (A_SetCloseTimeout t) s = Some (SetCloseTimeout t s)"
| "api_run lib (A_SetIdleTimeout t) s = SetIdleTimeout t s"
| "api_run lib (A_Ping_Register pid) s = Some (snd (ping_register pid s))"
| "api_run lib (A_Ping_Send pid) s = Some (snd (ping_send lib pid s))"
| "api_run lib (A_Ping_Unregister pid) s = Some (ping_unregister pid s)"

section \<open>The system\<close>

text \<open>
  Where the read loop is: reading, pushing a frame to a queue, waiting for the workers with the
  \<open>GOAWAY\<close> frame that ended the loop (if one did), done; or the process has crashed.
\<close>

datatype phase =
    Reading
  | Pushing nat frame u8
  | Closing "go_away_frame option"
  | Served
  | Crashed

datatype worker_pc = At_Pop | Waiting wait | Exited

record ('c, 'd) system =
  sy_conn :: "('c, 'd) connection"
  sy_phase :: phase
  sy_roundRobin :: nat
  sy_queues :: "priority_frame_queue list"
  sy_workers :: "worker_pc list"

definition read_failed :: "go_error \<Rightarrow> ('c, 'd) connection \<Rightarrow> ('c, 'd) connection" where
  "read_failed err s = (case err of
      SpdyError code sid \<Rightarrow> if code = InvalidControlFrame then netconn_Close s else s
    | _ \<Rightarrow> s)"

definition close_closeChan :: "('c, 'd) connection \<Rightarrow> ('c, 'd) connection" where
  "close_closeChan s = (if cn_closeChan_closed s then panics s else s\<lparr>cn_closeChan_closed := True\<rparr>)"

text \<open>After a handler or its continuation: the worker goes on, waits, or brings the process down.\<close>

definition worker_result ::
  "nat \<Rightarrow> ('c, 'd) connection handled \<Rightarrow> ('c, 'd) system \<Rightarrow> ('c, 'd) system" where
  "worker_result k h y =
     (case h of
        Panicked \<Rightarrow> y\<lparr>sy_phase := Crashed\<rparr>
      | Returned err s \<Rightarrow> y\<lparr>sy_conn := s, sy_workers := (sy_workers y)[k := At_Pop]\<rparr>
      | Suspended w s \<Rightarrow> y\<lparr>sy_conn := s, sy_workers := (sy_workers y)[k := Waiting w]\<rparr>)"

text \<open>The tail of \<open>Serve\<close>, once the workers have left.\<close>

definition serve_end :: "go_away_frame option \<Rightarrow> ('c, 'd) connection \<Rightarrow> ('c, 'd) connection" where
  "serve_end g s = close_all_streams (case g of None \<Rightarrow> s | Some fr \<Rightarrow> snd (handleGoAwayFrame fr s))"

definition run_task :: "('c, 'd) golib \<Rightarrow> go_task \<Rightarrow> ('c, 'd) connection \<Rightarrow> ('c, 'd) connection" where
  "run_task lib t s = (case t of
      Reset_Task status sid \<Rightarrow> snd (sendResetFrame lib status sid s)
    | Notify_Task st \<Rightarrow> s
    | Shutdown_Task timeout \<Rightarrow> shutdown_begin timeout s
    | Idle_Task [] \<Rightarrow> snd (Close lib s)
    | Idle_Task (r # rs) \<Rightarrow> spawn (Idle_Task rs) (snd (resetStream lib r s)))"

definition drop_task :: "nat \<Rightarrow> ('c, 'd) connection \<Rightarrow> ('c, 'd) connection" where
  "drop_task i s = s\<lparr>cn_tasks := take i (cn_tasks s) @ drop (Suc i) (cn_tasks s)\<rparr>"

text \<open>
  What the monitor does on its own: take a new timeout, or stop once the connection is closed;
  and its timer, which may fire.
  What \<open>shutdown\<close> does, with the error of the network connection's \<open>Close\<close>.
\<close>

definition monitor_moves :: "('c, 'd) connection \<Rightarrow> ('c, 'd) connection option list" where
  "monitor_moves s =
     (let i = cn_framer s in
      [case if_pending i of
         Some t \<Rightarrow> if if_running i then Some (s\<lparr>cn_framer := monitor_timeout t i\<rparr>) else None
       | None \<Rightarrow> None,
       if if_running i \<and> cn_closeChan_closed s
       then Some (case monitor_stop i of None \<Rightarrow> panics s | Some i \<Rightarrow> s\<lparr>cn_framer := i\<rparr>) else None,
       case timer_fires i of None \<Rightarrow> None | Some i \<Rightarrow> Some (s\<lparr>cn_framer := i\<rparr>)])"

definition shutdown_moves :: "go_error option \<Rightarrow> ('c, 'd) connection \<Rightarrow> ('c, 'd) connection option list" where
  "shutdown_moves err s =
     [shutdown_seen s, shutdown_graceful err s, shutdown_timeout err s, shutdown_cleared s, shutdown_reported s]"

text \<open>
  What an observer sees: a frame put in a worker's queue with a priority, a frame the worker
  takes; of a stream, a data frame accepted for it by its worker, the data taken from the worker
  by a reader or dropped, the bytes a \<open>Read\<close> returns.
\<close>

datatype event =
    Queued nat frame u8
  | Popped nat frame
  | Accepted nat "byte list"
  | Taken nat "byte list"
  | Dropped nat "byte list"
  | Out nat "byte list"

definition accept_events :: "'s handled \<Rightarrow> event list" where
  "accept_events h = (case h of Suspended (Wait_Data r d fin) s \<Rightarrow> [Accepted r d] | _ \<Rightarrow> [])"

text \<open>
  The steps.  A \<open>ReadData\<close> is a \<open>Read\<close> with a buffer that holds the whole frame.  The
  relation says nothing of the moment a crashed process stops: it allows steps after a crash too.
\<close>

inductive serve_step :: "('c, 'd) golib \<Rightarrow> ('c, 'd) system \<Rightarrow> event list \<Rightarrow> ('c, 'd) system \<Rightarrow> bool" for lib where
  read_frame: "sy_phase y = Reading \<Longrightarrow> iaf_ReadFrame lib (cn_framer (sy_conn y)) = Some (Inr fr, i) \<Longrightarrow>
     route fr (sy_roundRobin y) ((sy_conn y)\<lparr>cn_framer := i\<rparr>) = (To_Queue k p, rr, s) \<Longrightarrow>
     serve_step lib y [] (y\<lparr>sy_conn := s, sy_roundRobin := rr, sy_phase := Pushing k fr p\<rparr>)"
| reject_frame: "sy_phase y = Reading \<Longrightarrow> iaf_ReadFrame lib (cn_framer (sy_conn y)) = Some (Inr fr, i) \<Longrightarrow>
     route fr (sy_roundRobin y) ((sy_conn y)\<lparr>cn_framer := i\<rparr>) = (Rejected, rr, s) \<Longrightarrow>
     serve_step lib y [] (y\<lparr>sy_conn := s, sy_roundRobin := rr\<rparr>)"
| read_goaway: "sy_phase y = Reading \<Longrightarrow> iaf_ReadFrame lib (cn_framer (sy_conn y)) = Some (Inr fr, i) \<Longrightarrow>
     route fr (sy_roundRobin y) ((sy_conn y)\<lparr>cn_framer := i\<rparr>) = (Stop g, rr, s) \<Longrightarrow>
     serve_step lib y [] (y\<lparr>sy_conn := close_closeChan s, sy_phase := Closing (Some g)\<rparr>)"
| read_error: "sy_phase y = Reading \<Longrightarrow> iaf_ReadFrame lib (cn_framer (sy_conn y)) = Some (Inl err, i) \<Longrightarrow>
     serve_step lib y [] (y\<lparr>sy_conn := close_closeChan (read_failed err ((sy_conn y)\<lparr>cn_framer := i\<rparr>)),
       sy_phase := Closing None\<rparr>)"
| push_frame: "sy_phase y = Pushing k fr p \<Longrightarrow> q_Push fr p (sy_queues y ! k) = Some q \<Longrightarrow>
     serve_step lib y [Queued k fr p] (y\<lparr>sy_queues := (sy_queues y)[k := q], sy_phase := Reading\<rparr>)"
| drain_queue: "k < FRAME_WORKERS \<Longrightarrow> cn_closeChan_closed (sy_conn y) \<Longrightarrow>
     serve_step lib y [] (y\<lparr>sy_queues := (sy_queues y)[k := q_Drain (sy_queues y ! k)]\<rparr>)"
| pop_frame: "k < FRAME_WORKERS \<Longrightarrow> sy_workers y ! k = At_Pop \<Longrightarrow>
     q_Pop (sy_queues y ! k) = Some (Some fr, q) \<Longrightarrow>
     serve_step lib y (Popped k fr # accept_events (handleFrame lib fr (sy_conn y))) (worker_result k (handleFrame lib fr (sy_conn y))
       (y\<lparr>sy_queues := (sy_queues y)[k := q]\<rparr>))"
| worker_exits: "k < FRAME_WORKERS \<Longrightarrow> sy_workers y ! k = At_Pop \<Longrightarrow>
     q_Pop (sy_queues y ! k) = Some (None, q) \<Longrightarrow>
     serve_step lib y [] (y\<lparr>sy_workers := (sy_workers y)[k := Exited]\<rparr>)"
| handler_returns: "k < FRAME_WORKERS \<Longrightarrow> sy_workers y ! k = Waiting (Wait_Handler r) \<Longrightarrow>
     serve_step lib y [] (worker_result k (resume (Wait_Handler r) True (sy_conn y)) y)"
| start_taken: "k < FRAME_WORKERS \<Longrightarrow> sy_workers y ! k = Waiting (Wait_Start r) \<Longrightarrow>
     serve_step lib y [] (worker_result k (resume (Wait_Start r) True (sy_conn y)) y)"
| header_taken: "k < FRAME_WORKERS \<Longrightarrow> sy_workers y ! k = Waiting (Wait_Header r hs fin) \<Longrightarrow>
     serve_step lib y [] (worker_result k (resume (Wait_Header r hs fin) True (sy_conn y)) y)"
| header_dropped: "k < FRAME_WORKERS \<Longrightarrow> sy_workers y ! k = Waiting (Wait_Header r hs fin) \<Longrightarrow>
     sm_closeClosed (stream_at (sy_conn y) r) \<Longrightarrow>
     serve_step lib y [] (worker_result k (resume (Wait_Header r hs fin) False (sy_conn y)) y)"
| data_read: "k < FRAME_WORKERS \<Longrightarrow> sy_workers y ! k = Waiting (Wait_Data r d fin) \<Longrightarrow>
     sm_unread (stream_at (sy_conn y) r) = None \<Longrightarrow>
     s_Read n (Some d) r (sy_conn y) = (Inr bs, s) \<Longrightarrow>
     serve_step lib y [Taken r d, Out r bs] (worker_result k (resume (Wait_Data r d fin) True s) y)"
| data_dropped: "k < FRAME_WORKERS \<Longrightarrow> sy_workers y ! k = Waiting (Wait_Data r d fin) \<Longrightarrow>
     sm_closeClosed (stream_at (sy_conn y) r) \<Longrightarrow>
     serve_step lib y [Dropped r d] (worker_result k (resume (Wait_Data r d fin) False (sy_conn y)) y)"
| unread_read: "r < length (cn_store (sy_conn y)) \<Longrightarrow> sm_unread (stream_at (sy_conn y) r) = Some u \<Longrightarrow>
     s_Read n None r (sy_conn y) = (Inr bs, s) \<Longrightarrow> serve_step lib y [Out r bs] (y\<lparr>sy_conn := s\<rparr>)"
| api: "\<forall>r\<in>set (api_refs c). r < length (cn_store (sy_conn y)) \<Longrightarrow> api_run lib c (sy_conn y) = Some s \<Longrightarrow>
     serve_step lib y [] (y\<lparr>sy_conn := s\<rparr>)"
| task: "i < length (cn_tasks (sy_conn y)) \<Longrightarrow>
     serve_step lib y [] (y\<lparr>sy_conn := run_task lib (cn_tasks (sy_conn y) ! i) (drop_task i (sy_conn y))\<rparr>)"
| monitor: "Some s \<in> set (monitor_moves (sy_conn y)) \<Longrightarrow> serve_step lib y [] (y\<lparr>sy_conn := s\<rparr>)"
| idle: "if_running (cn_framer (sy_conn y)) \<Longrightarrow> if_expired (cn_framer (sy_conn y)) \<Longrightarrow>
     distinct rs \<Longrightarrow> set rs = ran (cn_streams (sy_conn y)) \<Longrightarrow>
     serve_step lib y [] (y\<lparr>sy_conn := idle_expire rs (sy_conn y)\<rparr>)"
| shutting_down: "Some s \<in> set (shutdown_moves err (sy_conn y)) \<Longrightarrow> serve_step lib y [] (y\<lparr>sy_conn := s\<rparr>)"
| serve_ends: "sy_phase y = Closing g \<Longrightarrow> \<forall>k<FRAME_WORKERS. sy_workers y ! k = Exited \<Longrightarrow>
     serve_step lib y [] (y\<lparr>sy_conn := serve_end g (sy_conn y), sy_phase := Served\<rparr>)"

text \<open>A system starts with a new connection and empty queues.\<close>

definition serve_start :: "('c, 'd) golib \<Rightarrow> ('c, 'd) system \<Rightarrow> bool" where
  "serve_start lib y = (\<exists>w r server opts.
     NewConnectionWithOptions lib w r server opts = Inr (sy_conn y) \<and> sy_phase y = Reading \<and>
     sy_roundRobin y = 0 \<and> sy_queues y = replicate FRAME_WORKERS (NewPriorityFrameQueue QUEUE_SIZE) \<and>
     sy_workers y = replicate FRAME_WORKERS At_Pop)"

abbreviation serves :: "('c, 'd) golib \<Rightarrow> event list \<Rightarrow> ('c, 'd) system \<Rightarrow> bool" where
  "serves lib \<equiv> run (serve_start lib) (serve_step lib)"

end
