(* ===== verification/Evolution.thy ===== *)
theory Evolution
  imports Serve
begin

text \<open>
  What the operations of a connection may change in a stream.  A relation between the states of
  a stream that allows the changes every operation makes is kept by every operation: that is
  proved once, in a locale, for all the operations of the model and used with two relations.
\<close>

definition wf_map :: "('c, 'd) connection \<Rightarrow> bool" where
  "wf_map s = (\<forall>sid r. cn_streams s sid = Some r \<longrightarrow>
     r < length (cn_store s) \<and> sm_streamId (stream_at s r) = sid)"

text \<open>
  \<open>evolves rel fresh s s'\<close>: the streams of \<open>s\<close> have changed by \<open>rel\<close>, the streams
  added since are \<open>fresh\<close>, and the map is still good if it was.
\<close>

definition evolves ::
  "(go_stream \<Rightarrow> go_stream \<Rightarrow> bool) \<Rightarrow> (go_stream \<Rightarrow> bool) \<Rightarrow> ('c, 'd) connection \<Rightarrow> ('c, 'd) connection \<Rightarrow> bool" where
  "evolves rel fresh s s' = (length (cn_store s) \<le> length (cn_store s') \<and>
     (\<forall>r<length (cn_store s). rel (stream_at s r) (stream_at s' r)) \<and>
     (\<forall>r<length (cn_store s'). length (cn_store s) \<le> r \<longrightarrow> fresh (stream_at s' r)) \<and>
     (wf_map s \<longrightarrow> wf_map s'))"

named_theorems ev_intros

lemma stream_at_upd: "stream_at (upd_stream r g s) k =
    (if k = r \<and> r < length (cn_store s) then g (stream_at s r) else stream_at s k)"
  by (cases "r < length (cn_store s)") (auto simp: stream_at_def upd_stream_def nth_list_update list_update_beyond)

lemma upd_stream_sel [simp]:
  "length (cn_store (upd_stream r g s)) = length (cn_store s)"
  "cn_streams (upd_stream r g s) = cn_streams s"
  by (simp_all add: upd_stream_def)

text \<open>All the streams of the map are closed, in the order of their references.\<close>

lemma close_if_mapped_eq:
  "close_if_mapped r s = (if cn_streams s (sm_streamId (stream_at s r)) = Some r
     then upd_stream r (\<lambda>st. st\<lparr>sm_closeClosed := True\<rparr>) s else s)"
  by (simp add: close_if_mapped_def closeRemoteChannels_eq)

lemma fold_close_sel [simp]:
  "length (cn_store (fold close_if_mapped rs s)) = length (cn_store s)"
  "cn_streams (fold close_if_mapped rs s) = cn_streams s"
  by (induction rs arbitrary: s) (simp_all add: close_if_mapped_eq)

lemma fold_close_at:
  assumes "distinct rs" "r < length (cn_store s)"
  shows "stream_at (fold close_if_mapped rs s) r =
    (if r \<in> set rs \<and> cn_streams s (sm_streamId (stream_at s r)) = Some r
     then (stream_at s r)\<lparr>sm_closeClosed := True\<rparr> else stream_at s r)"
  using assms by (induction rs arbitrary: s) (auto simp: close_if_mapped_eq stream_at_upd)

lemma close_all_sel [simp]:
  "length (cn_store (close_all_streams s)) = length (cn_store s)" "cn_streams (close_all_streams s) = Map.empty"
  by (simp_all add: close_all_streams_def)

lemma close_all_at:
  assumes "r < length (cn_store s)"
  shows "stream_at (close_all_streams s) r = (if cn_streams s (sm_streamId (stream_at s r)) = Some r
     then (stream_at s r)\<lparr>sm_closeClosed := True\<rparr> else stream_at s r)"
proof -
  have "stream_at (close_all_streams s) r = stream_at (fold close_if_mapped [0..<length (cn_store s)] s) r"
    by (simp add: close_all_streams_def stream_at_def)
  with assms show ?thesis by (simp add: fold_close_at)
qed

lemma snd_case_prod: "snd (case x of (a, b) \<Rightarrow> (f a, g b)) = g (snd x)"
  by (cases x) simp

definition handled_conn :: "('c, 'd) connection \<Rightarrow> ('c, 'd) connection handled \<Rightarrow> ('c, 'd) connection" where
  "handled_conn s h = (case h of Panicked \<Rightarrow> s | Returned err s' \<Rightarrow> s' | Suspended w s' \<Rightarrow> s')"

lemma handled_conn_simps [simp]: "handled_conn s Panicked = s" "handled_conn s (Returned err s') = s'"
  "handled_conn s (Suspended w s') = s'" "handled_conn s (returns x) = snd x"
  by (simp_all add: handled_conn_def returns_def split: prod.split)

section \<open>The contract of an operation\<close>

locale stream_evolution =
  fixes rel :: "go_stream \<Rightarrow> go_stream \<Rightarrow> bool" and fresh :: "go_stream \<Rightarrow> bool"
  assumes rel_refl: "rel st st"
    and rel_trans: "rel a b \<Longrightarrow> rel b c \<Longrightarrow> rel a c"
    and rel_id: "rel a b \<Longrightarrow> sm_streamId b = sm_streamId a"
    and rel_close: "rel st (st\<lparr>sm_closeClosed := True\<rparr>)"
    and rel_finish: "rel st (st\<lparr>sm_finished := True\<rparr>)"
    and rel_reply: "rel st (st\<lparr>sm_replied := True\<rparr>)"
    and rel_priority: "rel st (st\<lparr>sm_priority := p\<rparr>)"
    and fresh_rel: "fresh a \<Longrightarrow> rel a b \<Longrightarrow> fresh b"
    and fresh_new: "\<not> sm_startClosed st \<Longrightarrow> sm_unread st = None \<Longrightarrow> fresh st"
begin

abbreviation ev :: "('c, 'd) connection \<Rightarrow> ('c, 'd) connection \<Rightarrow> bool" where
  "ev \<equiv> evolves rel fresh"

lemma ev_refl [ev_intros]: "ev s s"
  by (simp add: evolves_def rel_refl)

lemma ev_trans:
  assumes "ev a b" "ev b c"
  shows "ev a c"
proof -
  have "fresh (stream_at c r)" if "r < length (cn_store c)" "length (cn_store a) \<le> r" for r
    using assms that unfolding evolves_def by (metis not_le fresh_rel)
  moreover have "rel (stream_at a r) (stream_at c r)" if "r < length (cn_store a)" for r
    using assms that unfolding evolves_def by (meson rel_trans order_less_le_trans)
  ultimately show ?thesis using assms unfolding evolves_def by auto
qed

lemma ev_store:
  "cn_store s' = cn_store s \<Longrightarrow> cn_streams s' = cn_streams s \<Longrightarrow> ev s s'"
  by (simp add: evolves_def stream_at_def wf_map_def rel_refl)

lemma ev_write [ev_intros]: "ev s (snd (cn_write lib fr s))"
  by (rule ev_store) (auto simp: cn_write_def split: prod.split)

lemma ev_upd [ev_intros]:
  assumes "\<And>st. rel st (g st)"
  shows "ev s (upd_stream r g s)"
  using assms rel_id [OF assms] by (auto simp: evolves_def stream_at_upd wf_map_def rel_refl)

lemma ev_remove [ev_intros]: "ev s (removeStream r s)"
  by (auto simp: evolves_def removeStream_def stream_at_def wf_map_def rel_refl)

lemma ev_add:
  assumes "r < length (cn_store s)"
  shows "ev s (addStream r s)"
  using assms by (auto simp: evolves_def addStream_def stream_at_def wf_map_def rel_refl)

lemma ev_alloc:
  assumes "fresh st"
  shows "ev s (s\<lparr>cn_store := cn_store s @ [st]\<rparr>)"
  using assms by (auto simp: evolves_def stream_at_def wf_map_def nth_append less_Suc_eq rel_refl)

lemma ev_closeRemote [ev_intros]: "ev s (closeRemoteChannels r s)"
  unfolding closeRemoteChannels_eq by (rule ev_upd) (rule rel_close)

lemma ev_remoteFinish [ev_intros]: "ev s (remoteStreamFinish r s)"
  unfolding remoteStreamFinish_def Let_def by (auto intro: ev_intros ev_trans)

lemma ev_finish [ev_intros]: "ev s (finish_stream r s)"
  unfolding finish_stream_def by (rule ev_upd) (rule rel_finish)

lemma ev_data_fin [ev_intros]: "ev s (data_fin r fin s)"
  unfolding data_fin_def by (auto intro: ev_intros)

lemma ev_spawn [ev_intros]: "ev s (spawn t s)"
  by (rule ev_store) (simp_all add: spawn_def)

lemma ev_then_write: "ev s s1 \<Longrightarrow> ev s (snd (cn_write lib fr s1))"
  by (blast intro: ev_trans ev_write)

section \<open>Every call of the application is quiet\<close>

lemma ev_sendStream [ev_intros]: "ev s (snd (sendStream lib r fin s))"
  unfolding sendStream_def Let_def
  by (rule ev_then_write) (auto intro: ev_intros rel_finish)

lemma ev_new_stream:
  assumes "fresh st"
  shows "ev s (addStream (length (cn_store s)) (s\<lparr>cn_store := cn_store s @ [st]\<rparr>))"
  by (rule ev_trans [OF ev_alloc ev_add]) (simp_all add: assms)

lemma ev_CreateStream: "ev s (snd (CreateStream lib hs p fin s))"
proof -
  obtain sid s1 where g: "getNextStreamId s = (sid, s1)" by fastforce
  have 1: "ev s s1" using g by (intro ev_store) (auto simp: getNextStreamId_def Let_def split: if_splits)
  show ?thesis
  proof (cases "sid = 0")
    case True
    with g 1 show ?thesis by (simp add: CreateStream_def)
  next
    case False
    let ?st = "\<lparr>sm_streamId = sid, sm_parent = p, sm_startClosed = False, sm_unread = None,
      sm_priority = 0, sm_headers = hs, sm_finished = False, sm_hasReplyCond = False,
      sm_replied = False, sm_closeClosed = False\<rparr>"
    have "ev s1 (addStream (length (cn_store s1)) (s1\<lparr>cn_store := cn_store s1 @ [?st]\<rparr>))"
      by (rule ev_new_stream) (simp add: fresh_new)
    with 1 have 2: "ev s (addStream (length (cn_store s1)) (s1\<lparr>cn_store := cn_store s1 @ [?st]\<rparr>))"
      by (rule ev_trans)
    from False g show ?thesis
      by (simp add: CreateStream_def alloc_stream_def case_prod_unfold)
        (rule ev_trans [OF 2 ev_sendStream])
  qed
qed

lemma ev_set_finished [ev_intros]: "ev s (upd_stream r (\<lambda>st. st\<lparr>sm_finished := True\<rparr>) s)"
  by (rule ev_upd) (rule rel_finish)

lemma ev_set_replied [ev_intros]: "ev s (upd_stream r (\<lambda>st. st\<lparr>sm_replied := True\<rparr>) s)"
  by (rule ev_upd) (rule rel_reply)

lemma ev_WriteData: "WriteData lib d fin r s = Some x \<Longrightarrow> ev s (snd x)"
  unfolding WriteData_def Let_def
  by (simp split: if_splits) (auto intro: ev_then_write ev_intros)

lemma ev_resetStream: "ev s (snd (resetStream lib r s))"
  unfolding resetStream_def Let_def
  using ev_trans [OF ev_closeRemote ev_set_finished, of s r r]
  by (simp add: ev_closeRemote ev_then_write)

lemma ev_SendReply: "ev s (snd (SendReply lib hs fin r s))"
proof -
  obtain err s1 where r: "sendReply lib hs r fin s = (err, s1)" by fastforce
  then have "ev s s1" using ev_write by (metis sendReply_def snd_conv)
  then show ?thesis
    using ev_trans [OF _ ev_set_replied] by (cases err) (auto simp: SendReply_def r ev_refl)
qed

lemma ev_Refuse: "ev s (snd (Refuse lib r s))"
  by (simp add: Refuse_def sendReset_def sendResetFrame_def ev_refl ev_then_write ev_set_replied)

lemma ev_Close: "ev s (snd (Close lib s))"
proof -
  have "ev s (s\<lparr>cn_goneAway := True\<rparr>)" by (rule ev_store) simp_all
  then show ?thesis
    by (simp add: Close_def Let_def case_prod_unfold ev_refl)
      (intro conjI impI ev_trans [OF ev_then_write ev_spawn])
qed

lemma ev_close_check: "ev s (close_check r s)"
  by (simp add: close_check_def ev_remove ev_refl)

lemmas ev_calls = ev_CreateStream ev_close_check ev_resetStream ev_SendReply ev_Refuse ev_Close ev_write

lemma ev_SetIdleTimeout: "SetIdleTimeout t s = Some s' \<Longrightarrow> ev s s'"
  by (rule ev_store) (auto simp: SetIdleTimeout_def)

lemma ev_api: "api_run lib c s = Some s' \<Longrightarrow> ev s s'"
  by (cases c) (auto simp: ev_calls Reset_def SetPriority_def SendHeader_def sendHeaders_def s_Cancel_def
      sendReset_def sendResetFrame_def NotifyClose_def SetCloseTimeout_def ping_send_def ping_unregister_def
      ping_register_def rel_priority dest!: ev_WriteData ev_SetIdleTimeout
      intro: ev_upd ev_store ev_trans [OF ev_remove ev_resetStream])

lemma ev_addStreamFrame: "ev s (addStreamFrame fr s)"
proof -
  let ?st = "\<lparr>sm_streamId = ss_StreamId fr,
     sm_parent = (if ss_AssociatedToStreamId fr \<noteq> 0 then getStream (ss_AssociatedToStreamId fr) s else None),
     sm_startClosed = False, sm_unread = None, sm_priority = ss_Priority fr, sm_headers = ss_Headers fr,
     sm_finished = (cf_Flags (ss_CFHeader fr) AND ControlFlagUnidirectional \<noteq> 0),
     sm_hasReplyCond = True, sm_replied = False, sm_closeClosed = False\<rparr>"
  let ?s = "s\<lparr>cn_store := cn_store s @ [?st]\<rparr>" and ?r = "length (cn_store s)"
  let ?s' = "if cf_Flags (ss_CFHeader fr) AND ControlFlagFin \<noteq> 0 then closeRemoteChannels ?r ?s else ?s"
  have "ev s ?s'"
    by (simp add: fresh_new ev_alloc ev_trans [OF ev_alloc ev_closeRemote])
  moreover have "ev ?s' (addStream ?r ?s')"
    by (rule ev_add) (simp add: closeRemoteChannels_eq)
  moreover have "addStreamFrame fr s = addStream ?r ?s'"
    unfolding addStreamFrame_def alloc_stream_def Let_def prod.case ..
  ultimately show ?thesis by (simp only:) (rule ev_trans)
qed

lemma ev_route:
  assumes "route fr rr s = (x, rr', s')"
  shows "ev s s'"
proof (cases fr)
  case (SynStream f)
  obtain b s1 where c: "checkStreamFrame f s = (b, s1)" by fastforce
  then have "ev s s1"
    by (intro ev_store) (auto simp: checkStreamFrame_def validateStreamId_def spawn_def split: if_splits)
  with assms SynStream c ev_addStreamFrame [of s1 f] show ?thesis
    by (cases b) (auto intro: ev_trans)
qed (use assms in \<open>auto simp: stream_route_def ev_refl\<close>)

lemma ev_read_failed [ev_intros]: "ev s (read_failed err s)"
  by (rule ev_store) (auto simp: read_failed_def netconn_Close_def Let_def split: go_error.split)

lemma ev_task: "ev s (run_task lib t (drop_task i s))"
proof -
  have "ev s (drop_task i s)" by (rule ev_store) (simp_all add: drop_task_def)
  moreover have "ev u (run_task lib t u)" for u
    by (auto simp: run_task_def sendResetFrame_def shutdown_begin_def ev_write ev_refl ev_Close
        intro: ev_store ev_trans [OF ev_resetStream ev_spawn] split: go_task.split list.split)
  ultimately show ?thesis by (rule ev_trans)
qed

lemma ev_monitor: "Some s' \<in> set (monitor_moves s) \<Longrightarrow> ev s s'"
  by (rule ev_store) (auto simp: monitor_moves_def panics_def Let_def split: if_splits option.splits)

lemma ev_shutdown: "Some s' \<in> set (shutdown_moves err s) \<Longrightarrow> ev s s'"
  by (rule ev_store) (auto simp: shutdown_moves_def shutdown_seen_def shutdown_graceful_def shutdown_timeout_def
      shutdown_cleared_def shutdown_reported_def shutdown_finish_def close_shutdownChan_def panics_def
      netconn_Close_def Let_def split: shutdown_state.splits if_splits bool.splits option.splits)

lemma ev_idle: "ev s (idle_expire rs s)"
proof -
  have "ev s (s\<lparr>cn_framer := i, cn_streams := Map.empty\<rparr>)" for i
    by (simp add: evolves_def stream_at_def wf_map_def rel_refl)
  then show ?thesis unfolding idle_expire_def by (rule ev_trans [OF _ ev_spawn])
qed

lemma ev_goaway: "ev s (snd (handleGoAwayFrame fr s))"
  by (rule ev_store) (auto simp: handleGoAwayFrame_def Let_def spawn_def)

lemma ev_close_all: "ev s (close_all_streams s)"
  by (auto simp: evolves_def close_all_at wf_map_def rel_refl rel_close)

lemma ev_serve_end: "ev s (serve_end g s)"
  by (cases g) (auto simp: serve_end_def intro: ev_close_all ev_trans [OF ev_goaway])

lemma ev_framer: "ev (s\<lparr>cn_framer := i\<rparr>) s' \<Longrightarrow> ev s s'"
  by (rule ev_trans [OF ev_store]) simp_all

lemma ev_closeChan: "ev s s' \<Longrightarrow> ev s (close_closeChan s')"
  by (erule ev_trans) (rule ev_store; simp add: close_closeChan_def panics_def)

end

text \<open>A relation that also allows a start channel to be closed is kept by the handlers too.\<close>

locale full_evolution = stream_evolution +
  assumes rel_start: "rel st (st\<lparr>sm_startClosed := True\<rparr>)"
begin

lemma ev_set_start: "ev s (upd_stream r (\<lambda>st. st\<lparr>sm_startClosed := True\<rparr>) s)"
  by (rule ev_upd) (rule rel_start)

lemma ev_close_start: "close_start r s = Some s' \<Longrightarrow> ev s s'"
  by (auto simp: close_start_def ev_set_start split: if_splits)

lemma ev_handlePing: "handlePingFrame lib fr s = Some x \<Longrightarrow> ev s (snd x)"
  by (auto simp: handlePingFrame_def ev_write ev_refl intro: ev_store split: if_splits option.splits)

lemma ev_handleReply: "ev s (handled_conn s (handleReplyFrame fr s))"
proof (cases "getStream (sr_StreamId fr) s")
  case (Some r)
  let ?u = "upd_stream r (\<lambda>st. st\<lparr>sm_replied := True\<rparr>) s"
  let ?v = "if cf_Flags (sr_CFHeader fr) AND ControlFlagFin \<noteq> 0 then remoteStreamFinish r ?u else ?u"
  have "ev ?u ?v" by (simp add: ev_refl ev_remoteFinish)
  with ev_set_replied have "ev s ?v" by (rule ev_trans)
  with Some show ?thesis
    by (auto simp: handleReplyFrame_def Let_def ev_refl split: option.splits intro: ev_trans ev_close_start)
qed (simp add: handleReplyFrame_def ev_refl)

lemma ev_handleReset: "ev s (handled_conn s (handleResetFrame fr s))"
proof -
  have "ev s (closeRemoteChannels r (removeStream r s))" for r
    by (rule ev_trans [OF ev_remove ev_closeRemote])
  then show ?thesis
    by (auto simp: handleResetFrame_def Let_def ev_refl split: option.split
        intro: ev_trans ev_set_replied ev_finish)
qed

lemma ev_handle: "ev s (handled_conn s (handleFrame lib fr s))"
proof (cases fr)
  case (Ping f)
  then show ?thesis by (auto simp: ev_refl dest: ev_handlePing split: option.split)
qed (auto simp: ev_handleReply ev_handleReset handleStreamFrame_def handleHeaderFrame_def handleDataFrame_def
    Let_def ev_refl ev_data_fin ev_goaway split: option.split)

lemma ev_resume: "ev s (handled_conn s (resume w taken s))"
proof (cases w)
  case (Wait_Start r)
  then show ?thesis
    by (auto simp: ev_refl split: option.split intro: ev_trans ev_close_start ev_finish)
qed (auto simp: ev_refl ev_remoteFinish ev_data_fin)

end

section \<open>Two relations\<close>

text \<open>
  \<open>quiet\<close>: no start channel was closed, and what was replied to still is.  \<open>keeps\<close>: no
  unread data was touched, and what was closed still is.
\<close>

definition same_stream :: "go_stream \<Rightarrow> go_stream \<Rightarrow> bool" where
  "same_stream st st' = (sm_streamId st' = sm_streamId st \<and> sm_startClosed st' = sm_startClosed st \<and>
     (sm_replied st \<longrightarrow> sm_replied st'))"

abbreviation quiet :: "('c, 'd) connection \<Rightarrow> ('c, 'd) connection \<Rightarrow> bool" where
  "quiet \<equiv> evolves same_stream (\<lambda>st. \<not> sm_startClosed st)"

definition same_data :: "go_stream \<Rightarrow> go_stream \<Rightarrow> bool" where
  "same_data st st' = (sm_streamId st' = sm_streamId st \<and> sm_unread st' = sm_unread st \<and>
     (sm_closeClosed st \<longrightarrow> sm_closeClosed st'))"

abbreviation keeps :: "('c, 'd) connection \<Rightarrow> ('c, 'd) connection \<Rightarrow> bool" where
  "keeps \<equiv> evolves same_data (\<lambda>st. sm_unread st = None)"

interpretation quiet: stream_evolution same_stream "\<lambda>st. \<not> sm_startClosed st"
  by unfold_locales (auto simp: same_stream_def)

interpretation keeps: full_evolution same_data "\<lambda>st. sm_unread st = None"
  by unfold_locales (auto simp: same_data_def)

lemma quiet_copy: "quiet s (snd (copy_unread n u r s))"
  by (simp add: copy_unread_def Let_def quiet.ev_upd same_stream_def)

lemma quiet_Read: "quiet s (snd (s_Read n chosen r s))"
  unfolding s_Read_def by (auto simp: snd_case_prod quiet_copy quiet.ev_refl split: option.split)

lemma s_Read_quiet: "s_Read n x r s = (res, s') \<Longrightarrow> quiet s s'"
  using quiet_Read [of s n x r] by simp

end
