(* ===== verification/Serve_Inv.thy ===== *)
theory Serve_Inv
  imports Evolution Conn_Ids
begin

text \<open>
  Invariants of the running system: the stream map and the store agree, start channels are
  closed at most once, and a worker can bring the process down only by a duplicate ping answer.
\<close>

definition start_ok :: "go_stream \<Rightarrow> bool" where
  "start_ok st = (sm_startClosed st \<longrightarrow> sm_replied st)"

section \<open>What a handler does\<close>

definition conn_ok :: "('c, 'd) connection \<Rightarrow> bool" where
  "conn_ok s = (wf_map s \<and> (\<forall>r<length (cn_store s). start_ok (stream_at s r)))"

fun wait_ref :: "wait \<Rightarrow> nat" where
  "wait_ref (Wait_Handler r) = r"
| "wait_ref (Wait_Start r) = r"
| "wait_ref (Wait_Header r hs fin) = r"
| "wait_ref (Wait_Data r d fin) = r"

definition may_start :: "nat \<Rightarrow> ('c, 'd) connection \<Rightarrow> bool" where
  "may_start r s = (sm_replied (stream_at s r) \<and> \<not> sm_startClosed (stream_at s r))"

definition wait_ok :: "('c, 'd) connection \<Rightarrow> wait \<Rightarrow> bool" where
  "wait_ok s w = (wait_ref w < length (cn_store s) \<and> (\<forall>r. w = Wait_Start r \<longrightarrow> may_start r s))"

text \<open>\<open>closes r s s'\<close>: the start channel of \<open>r\<close> was closed on the way, once.\<close>

definition closes :: "nat \<Rightarrow> ('c, 'd) connection \<Rightarrow> ('c, 'd) connection \<Rightarrow> bool" where
  "closes r s s' = (\<exists>s1. quiet s s1 \<and> r < length (cn_store s1) \<and> sm_replied (stream_at s1 r) \<and>
     quiet (upd_stream r (\<lambda>st. st\<lparr>sm_startClosed := True\<rparr>) s1) s')"

lemma quiet_conn_ok: "quiet s s' \<Longrightarrow> conn_ok s \<Longrightarrow> conn_ok s'"
  unfolding conn_ok_def evolves_def same_stream_def start_ok_def by (metis not_le)

lemma quiet_length: "quiet s s' \<Longrightarrow> r < length (cn_store s) \<Longrightarrow> r < length (cn_store s')"
  by (auto simp: evolves_def)

lemma quiet_may_start: "quiet s s' \<Longrightarrow> r < length (cn_store s) \<Longrightarrow> may_start r s \<Longrightarrow> may_start r s'"
  by (auto simp: evolves_def same_stream_def may_start_def)

lemma quiet_wait_ok: "quiet s s' \<Longrightarrow> wait_ok s w \<Longrightarrow> wait_ok s' w"
  by (auto simp: wait_ok_def intro: quiet_length quiet_may_start)

lemma start_upd_ok:
  assumes "conn_ok s" "r < length (cn_store s)" "sm_replied (stream_at s r)"
  shows "conn_ok (upd_stream r (\<lambda>st. st\<lparr>sm_startClosed := True\<rparr>) s)"
  using assms by (auto simp: conn_ok_def wf_map_def stream_at_upd start_ok_def)

lemma closes_conn_ok:
  assumes "closes r s s'" "conn_ok s"
  shows "conn_ok s'"
proof -
  from assms(1) obtain s1 where s1: "quiet s s1" "r < length (cn_store s1)" "sm_replied (stream_at s1 r)"
    "quiet (upd_stream r (\<lambda>st. st\<lparr>sm_startClosed := True\<rparr>) s1) s'" by (auto simp: closes_def)
  from start_upd_ok [OF quiet_conn_ok [OF s1(1) assms(2)] s1(2,3)] s1(4) show ?thesis
    by (rule quiet_conn_ok [rotated])
qed

lemma closes_wait_ok:
  assumes "closes r s s'" "wait_ok s w" "w \<noteq> Wait_Start r"
  shows "wait_ok s' w"
proof -
  from assms(1) obtain s1 where s1: "quiet s s1" "quiet (upd_stream r (\<lambda>st. st\<lparr>sm_startClosed := True\<rparr>) s1) s'"
    by (auto simp: closes_def)
  from quiet_wait_ok [OF s1(1) assms(2)] have "wait_ok (upd_stream r (\<lambda>st. st\<lparr>sm_startClosed := True\<rparr>) s1) w"
    using assms(3) by (auto simp: wait_ok_def may_start_def stream_at_upd)
  with s1(2) show ?thesis by (rule quiet_wait_ok)
qed

text \<open>The two ways a handler may go wrong or right, over every frame.\<close>

definition handled_ok :: "('c, 'd) connection \<Rightarrow> ('c, 'd) connection handled \<Rightarrow> bool" where
  "handled_ok s h = (case h of
      Panicked \<Rightarrow> False
    | Returned err s' \<Rightarrow> quiet s s' \<or> (\<exists>r. closes r s s' \<and> \<not> may_start r s)
    | Suspended w s' \<Rightarrow> quiet s s' \<and> wait_ok s' w \<and> (\<forall>r. w = Wait_Start r \<longrightarrow> \<not> may_start r s))"

lemma handleReplyFrame_ok:
  assumes "conn_ok s"
  shows "handled_ok s (handleReplyFrame fr s)"
proof (cases "getStream (sr_StreamId fr) s")
  case None
  then show ?thesis by (simp add: handleReplyFrame_def handled_ok_def quiet.ev_refl)
next
  case (Some r)
  with assms have r: "r < length (cn_store s)" "start_ok (stream_at s r)"
    by (auto simp: conn_ok_def wf_map_def getStream_def)
  show ?thesis
  proof (cases "sm_replied (stream_at s r)")
    case True
    with Some show ?thesis by (simp add: handleReplyFrame_def handled_ok_def quiet.ev_refl)
  next
    case False
    define u where "u = upd_stream r (\<lambda>st. st\<lparr>sm_replied := True\<rparr>) s"
    define v where "v = (if cf_Flags (sr_CFHeader fr) AND ControlFlagFin \<noteq> 0 then remoteStreamFinish r u else u)"
    have u: "quiet s u" "sm_replied (stream_at u r)" "\<not> sm_startClosed (stream_at u r)" "r < length (cn_store u)"
      using r False by (auto simp: u_def stream_at_upd start_ok_def intro: ev_intros)
    have "quiet u v" by (simp add: v_def quiet.ev_refl quiet.ev_remoteFinish)
    with u have v: "quiet s v" "sm_replied (stream_at v r)" "\<not> sm_startClosed (stream_at v r)" "r < length (cn_store v)"
      by (auto intro: quiet.ev_trans quiet_length simp: evolves_def same_stream_def)
    let ?w = "upd_stream r (\<lambda>st. st\<lparr>sm_startClosed := True\<rparr>) v"
    have "handleReplyFrame fr s = Returned None ?w"
      using Some False v(3) by (simp add: handleReplyFrame_def Let_def close_start_def flip: u_def v_def)
    moreover have "closes r s ?w" using v by (auto simp: closes_def intro: quiet.ev_refl)
    ultimately show ?thesis using False by (auto simp: handled_ok_def may_start_def)
  qed
qed

lemma handleResetFrame_ok:
  assumes "conn_ok s"
  shows "handled_ok s (handleResetFrame fr s)"
proof (cases "getStream (rs_StreamId fr) s")
  case None
  then show ?thesis by (simp add: handleResetFrame_def handled_ok_def quiet.ev_refl)
next
  case (Some r)
  with assms have r: "r < length (cn_store s)" "start_ok (stream_at s r)"
    by (auto simp: conn_ok_def wf_map_def getStream_def)
  define u where "u = closeRemoteChannels r (removeStream r s)"
  have u: "quiet s u" unfolding u_def by (rule quiet.ev_trans [OF quiet.ev_remove quiet.ev_closeRemote])
  have eq: "sm_replied (stream_at u r) = sm_replied (stream_at s r)"
    "sm_startClosed (stream_at u r) = sm_startClosed (stream_at s r)" "r < length (cn_store u)"
    using r(1) by (auto simp: u_def closeRemoteChannels_eq removeStream_def stream_at_upd) (auto simp: stream_at_def)
  show ?thesis
  proof (cases "sm_replied (stream_at s r)")
    case True
    then have "handleResetFrame fr s = Returned None (finish_stream r u)"
      using Some eq by (simp add: handleResetFrame_def Let_def flip: u_def)
    then show ?thesis using quiet.ev_trans [OF u quiet.ev_finish] by (simp add: handled_ok_def)
  next
    case False
    let ?v = "upd_stream r (\<lambda>st. st\<lparr>sm_replied := True\<rparr>) u"
    have "handleResetFrame fr s = Suspended (Wait_Start r) ?v"
      using Some eq False by (simp add: handleResetFrame_def Let_def flip: u_def)
    moreover have "quiet s ?v" using quiet.ev_trans [OF u quiet.ev_set_replied] .
    moreover have "wait_ok ?v (Wait_Start r)"
      using eq r False by (auto simp: wait_ok_def may_start_def stream_at_upd start_ok_def)
    ultimately show ?thesis using False by (simp add: handled_ok_def may_start_def)
  qed
qed

lemma handleFrame_ok:
  assumes "conn_ok s" "handleFrame lib fr s \<noteq> Panicked"
  shows "handled_ok s (handleFrame lib fr s)"
proof -
  have ref: "getStream sid s = Some r \<Longrightarrow> r < length (cn_store s)" for sid r
    using assms(1) by (auto simp: conn_ok_def wf_map_def getStream_def)
  show ?thesis
  proof (cases fr)
    case (Ping f)
    with assms(2) quiet.ev_write [of s lib fr] show ?thesis
      by (auto simp: handlePingFrame_def handled_ok_def returns_def intro: quiet.ev_refl quiet.ev_store
          split: option.splits if_splits prod.splits)
  next
    case (GoAway f)
    then show ?thesis using quiet.ev_goaway [of s f]
      by (simp add: returns_def case_prod_unfold handled_ok_def)
  next
    case (SynReply f)
    then show ?thesis using handleReplyFrame_ok [OF assms(1)] by simp
  next
    case (RstStream f)
    then show ?thesis using handleResetFrame_ok [OF assms(1)] by simp
  qed (auto simp: handleStreamFrame_def
      handleHeaderFrame_def handleDataFrame_def handled_ok_def wait_ok_def Let_def
      quiet.ev_refl quiet.ev_data_fin ref split: option.splits)
qed

lemma resume_ok:
  assumes "wait_ok s w"
  shows "\<exists>s'. resume w taken s = Returned None s' \<and>
     (if \<exists>r. w = Wait_Start r then closes (wait_ref w) s s' else quiet s s')"
proof (cases w)
  case (Wait_Start r)
  let ?u = "upd_stream r (\<lambda>st. st\<lparr>sm_startClosed := True\<rparr>) s"
  from Wait_Start assms have "resume w taken s = Returned None (finish_stream r ?u)" "closes r s (finish_stream r ?u)"
    by (auto simp: wait_ok_def may_start_def close_start_def closes_def intro: quiet.ev_refl quiet.ev_finish)
  with Wait_Start show ?thesis by simp
qed (simp_all add: quiet.ev_refl quiet.ev_remoteFinish quiet.ev_data_fin)

declare resume.simps [simp del]

text \<open>The only panic: the answer to a ping whose channel is closed already.\<close>

lemma handleFrame_panics:
  assumes "conn_ok s" "handleFrame lib fr s = Panicked"
  shows "\<exists>p ch. fr = Ping p \<and> cn_pingId s AND 1 = pg_Id p AND 1 \<and> cn_pingChans s (pg_Id p) = Some ch \<and> cn_pings s ! ch"
proof (cases fr)
  case (SynReply f)
  with assms handleReplyFrame_ok [of s f] show ?thesis by (simp add: handled_ok_def)
next
  case (Ping f)
  with assms(2) show ?thesis
    by (auto simp: handlePingFrame_def returns_def split: option.splits if_splits prod.splits)
qed (use assms in \<open>auto simp: handleStreamFrame_def handleResetFrame_def handleHeaderFrame_def handleDataFrame_def
   Let_def returns_def split: option.splits if_splits prod.splits\<close>)

section \<open>The invariant of the system\<close>

definition waits_apart :: "worker_pc list \<Rightarrow> bool" where
  "waits_apart ws = (\<forall>i<length ws. \<forall>j<length ws. \<forall>r.
     ws ! i = Waiting (Wait_Start r) \<longrightarrow> ws ! j = Waiting (Wait_Start r) \<longrightarrow> i = j)"

definition sys_ok :: "('c, 'd) system \<Rightarrow> bool" where
  "sys_ok y = (conn_ok (sy_conn y) \<and> length (sy_workers y) = FRAME_WORKERS \<and>
     (\<forall>k<FRAME_WORKERS. \<forall>w. sy_workers y ! k = Waiting w \<longrightarrow> wait_ok (sy_conn y) w) \<and>
     waits_apart (sy_workers y))"

lemma sys_ok_quiet:
  assumes "sys_ok y" "quiet (sy_conn y) (sy_conn y')" "sy_workers y' = sy_workers y"
  shows "sys_ok y'"
  using assms by (auto simp: sys_ok_def intro: quiet_conn_ok quiet_wait_ok)

lemma waits_apart_leave: "waits_apart ws \<Longrightarrow> pc = At_Pop \<or> pc = Exited \<Longrightarrow> waits_apart (ws[k := pc])"
  by (cases "k < length ws") (auto simp: waits_apart_def nth_list_update split: if_splits)

lemma sys_ok_worker:
  assumes "sys_ok y" "k < FRAME_WORKERS" "handled_ok (sy_conn y) h" "sy_workers y ! k = At_Pop"
  shows "sys_ok (worker_result k h y)"
proof -
  have len: "length (sy_workers y) = FRAME_WORKERS" and c: "conn_ok (sy_conn y)" and ap: "waits_apart (sy_workers y)"
    and w: "\<And>i v. i < FRAME_WORKERS \<Longrightarrow> sy_workers y ! i = Waiting v \<Longrightarrow> wait_ok (sy_conn y) v"
    using assms(1) by (auto simp: sys_ok_def)
  have starts: "may_start r (sy_conn y)" if "i < FRAME_WORKERS" "sy_workers y ! i = Waiting (Wait_Start r)" for i r
    using w [OF that] by (simp add: wait_ok_def)
  show ?thesis
  proof (cases h)
    case Panicked
    with assms(3) show ?thesis by (simp add: handled_ok_def)
  next
    case (Returned err s)
    with assms(3) consider "quiet (sy_conn y) s" | r where "closes r (sy_conn y) s" "\<not> may_start r (sy_conn y)"
      by (auto simp: handled_ok_def)
    then have "conn_ok s \<and> (\<forall>i<FRAME_WORKERS. \<forall>v. sy_workers y ! i = Waiting v \<longrightarrow> wait_ok s v)"
    proof cases
      case 1
      with c w show ?thesis by (auto intro: quiet_conn_ok quiet_wait_ok)
    next
      case (2 r)
      then have "v \<noteq> Wait_Start r" if "i < FRAME_WORKERS" "sy_workers y ! i = Waiting v" for i v
        using starts that by blast
      with closes_wait_ok [OF 2(1) w] closes_conn_ok [OF 2(1) c] show ?thesis by blast
    qed
    with Returned len ap assms(2) show ?thesis
      by (auto simp: worker_result_def sys_ok_def nth_list_update intro: waits_apart_leave)
  next
    case (Suspended v s)
    with assms(3) have q: "quiet (sy_conn y) s" "wait_ok s v" "\<forall>r. v = Wait_Start r \<longrightarrow> \<not> may_start r (sy_conn y)"
      by (auto simp: handled_ok_def)
    then have "conn_ok s \<and> (\<forall>i<FRAME_WORKERS. \<forall>v. sy_workers y ! i = Waiting v \<longrightarrow> wait_ok s v)"
      using c w by (auto intro: quiet_conn_ok quiet_wait_ok)
    moreover have "waits_apart ((sy_workers y)[k := Waiting v])"
      using ap q(3) starts len assms(2) by (auto simp: waits_apart_def nth_list_update split: if_splits)
    ultimately show ?thesis
      using Suspended len q(2) assms(2) by (auto simp: worker_result_def sys_ok_def nth_list_update)
  qed
qed

lemma sys_ok_resume:
  assumes "sys_ok y" "k < FRAME_WORKERS" "sy_workers y ! k = Waiting w" "quiet (sy_conn y) s"
  shows "sys_ok (worker_result k (resume w taken s) y)"
proof -
  have len: "length (sy_workers y) = FRAME_WORKERS" and c: "conn_ok s" and ap: "waits_apart (sy_workers y)"
    and w: "\<And>i v. i < FRAME_WORKERS \<Longrightarrow> sy_workers y ! i = Waiting v \<Longrightarrow> wait_ok s v"
    using assms(1,4) by (auto simp: sys_ok_def intro: quiet_conn_ok quiet_wait_ok)
  from resume_ok [OF w [OF assms(2,3)], of taken] obtain s' where
    s': "resume w taken s = Returned None s'" "if \<exists>r. w = Wait_Start r then closes (wait_ref w) s s' else quiet s s'" by blast
  have "conn_ok s'"
    using s'(2) c by (auto intro: closes_conn_ok quiet_conn_ok split: if_splits)
  moreover have "wait_ok s' v" if "i < FRAME_WORKERS" "i \<noteq> k" "sy_workers y ! i = Waiting v" for i v
  proof (cases "\<exists>r. w = Wait_Start r")
    case True
    then obtain r where r: "w = Wait_Start r" by blast
    with ap that assms(2,3) len have "v \<noteq> Wait_Start r" by (auto simp: waits_apart_def)
    with s'(2) r closes_wait_ok w that show ?thesis by fastforce
  next
    case False
    with s'(2) w that quiet_wait_ok show ?thesis by (metis (full_types))
  qed
  ultimately show ?thesis
    using len ap s'(1) assms(2) by (auto simp: worker_result_def sys_ok_def nth_list_update intro: waits_apart_leave)
qed

lemma worker_result_sel [simp]:
  "sy_workers (worker_result k h (y\<lparr>sy_queues := qs\<rparr>)) = sy_workers (worker_result k h y)"
  "sy_conn (worker_result k h (y\<lparr>sy_queues := qs\<rparr>)) = sy_conn (worker_result k h y)"
  by (simp_all add: worker_result_def split: handled.split)

lemma sys_ok_panic: "sys_ok y \<Longrightarrow> sys_ok (worker_result k Panicked y)"
  by (simp add: worker_result_def sys_ok_def)

lemma sys_ok_queues [simp]: "sys_ok (y\<lparr>sy_queues := qs\<rparr>) = sys_ok y" "sys_ok (y\<lparr>sy_phase := p\<rparr>) = sys_ok y"
  "sys_ok (y\<lparr>sy_roundRobin := rr\<rparr>) = sys_ok y"
  by (simp_all add: sys_ok_def)

lemma sys_ok_conn: "sys_ok y \<Longrightarrow> quiet (sy_conn y) s \<Longrightarrow> sys_ok (y\<lparr>sy_conn := s\<rparr>)"
  by (rule sys_ok_quiet) simp_all

lemma sys_ok_step:
  assumes "sys_ok y" "serve_step lib y es y'"
  shows "sys_ok y'"
  using assms(2)
proof cases
  case (read_frame fr i k p rr s)
  from quiet.ev_framer [OF quiet.ev_route [OF read_frame(5)]] assms(1) show ?thesis
    by (simp add: read_frame(2) sys_ok_conn)
next
  case (reject_frame fr i rr s)
  from quiet.ev_framer [OF quiet.ev_route [OF reject_frame(5)]] assms(1) show ?thesis
    by (simp add: reject_frame(2) sys_ok_conn)
next
  case (read_goaway fr i g rr s)
  from quiet.ev_closeChan [OF quiet.ev_framer [OF quiet.ev_route [OF read_goaway(5)]]] assms(1) show ?thesis
    by (simp add: read_goaway(2) sys_ok_conn)
next
  case (read_error err i)
  have "quiet (sy_conn y) (close_closeChan (read_failed err ((sy_conn y)\<lparr>cn_framer := i\<rparr>)))"
    by (intro quiet.ev_closeChan quiet.ev_framer [OF quiet.ev_read_failed])
  with assms(1) show ?thesis by (simp add: read_error(2) sys_ok_conn)
next
  case (pop_frame k fr q)
  let ?h = "handleFrame lib fr (sy_conn y)"
  let ?y = "y\<lparr>sy_queues := (sy_queues y)[k := q]\<rparr>"
  show ?thesis
  proof (cases "?h = Panicked")
    case True
    with pop_frame assms(1) show ?thesis by (simp add: sys_ok_panic)
  next
    case False
    from assms(1) have "conn_ok (sy_conn y)" by (simp add: sys_ok_def)
    from handleFrame_ok [OF this False] pop_frame assms(1) show ?thesis
      using sys_ok_worker [of ?y k ?h] by simp
  qed
next
  case (worker_exits k q)
  with assms(1) show ?thesis
    by (auto simp: sys_ok_def nth_list_update intro: waits_apart_leave)
next
  case (data_read k r d fin n bs s)
  from sys_ok_resume [OF assms(1) data_read(3,4) s_Read_quiet [OF data_read(6)]] data_read(2) show ?thesis by simp
next
  case (unread_read r u n bs s)
  from sys_ok_conn [OF assms(1) s_Read_quiet [OF unread_read(5)]] unread_read(2) show ?thesis by simp
next
  case (api c s)
  from sys_ok_conn [OF assms(1) quiet.ev_api [OF api(4)]] api(2) show ?thesis by simp
next
  case (task i)
  with assms(1) show ?thesis by (simp add: sys_ok_conn quiet.ev_task)
next
  case (monitor s)
  from sys_ok_conn [OF assms(1) quiet.ev_monitor [OF monitor(3)]] monitor(2) show ?thesis by simp
next
  case (shutting_down s err)
  from sys_ok_conn [OF assms(1) quiet.ev_shutdown [OF shutting_down(3)]] shutting_down(2) show ?thesis by simp
next
  case (idle rs)
  with assms(1) show ?thesis by (simp add: sys_ok_conn quiet.ev_idle)
next
  case (serve_ends g)
  with assms(1) show ?thesis by (simp add: sys_ok_conn quiet.ev_serve_end)
qed (use assms(1) in \<open>auto intro: sys_ok_resume quiet.ev_refl\<close>)

lemma sys_ok_start: "serve_start lib y \<Longrightarrow> sys_ok y"
  by (auto simp: serve_start_def sys_ok_def conn_ok_def wf_map_def new_conn waits_apart_def)

interpretation serve: invariant_system "serve_start lib" "serve_step lib" sys_ok for lib
  by unfold_locales (auto intro: sys_ok_start sys_ok_step)

text \<open>
  C6: In every state a running connection can reach, whatever frames come in, however the
  workers, the application's calls and the spawned goroutines interleave: a stream in the map is
  one that was made, it stands there under its own id, and its start channel is closed only if
  the stream was replied to.
\<close>

theorem stream_map_consistent:
  assumes "serves lib tr y" "cn_streams (sy_conn y) sid = Some r"
  shows "r < length (cn_store (sy_conn y)) \<and> sm_streamId (stream_at (sy_conn y) r) = sid \<and>
     (sm_startClosed (stream_at (sy_conn y) r) \<longrightarrow> sm_replied (stream_at (sy_conn y) r))"
  using serve.run_inv [OF assms(1)] assms(2) by (auto simp: sys_ok_def conn_ok_def wf_map_def start_ok_def)

definition ex_system :: "byte list \<Rightarrow> (unit, unit) system" where
  "ex_system bs = (case NewConnection id_lib ex_writer (ex_reader bs) True of
     Inr s \<Rightarrow> \<lparr>sy_conn = s, sy_phase = Reading, sy_roundRobin = 0,
       sy_queues = replicate FRAME_WORKERS (NewPriorityFrameQueue QUEUE_SIZE),
       sy_workers = replicate FRAME_WORKERS At_Pop\<rparr>)"

lemma ex_new_conn: "\<exists>s. NewConnection id_lib ex_writer (ex_reader bs) True = Inr s"
  by (simp add: NewConnection_def NewConnectionWithOptions_def NewFramerWithOptions_def newFramer_def id_lib_def)

lemma ex_start: "serve_start id_lib (ex_system bs)"
proof -
  obtain s where "NewConnection id_lib ex_writer (ex_reader bs) True = Inr s" using ex_new_conn by blast
  then show ?thesis unfolding serve_start_def ex_system_def by (auto simp: NewConnection_def)
qed

lemma serves_step: "serves lib tr y \<Longrightarrow> serve_step lib y es y' \<Longrightarrow> serves lib (tr @ es) y'"
  by (rule run_step)

lemma ex_serves: "serves id_lib [] (ex_system bs)"
  by (rule run_start) (rule ex_start)

lemma ex_sys_conn: "cn_nextStreamId (sy_conn (ex_system bs)) = 2" "cn_streams (sy_conn (ex_system bs)) = Map.empty"
  "cn_store (sy_conn (ex_system bs)) = []"
  by (auto simp: ex_system_def NewConnection_def NewConnectionWithOptions_def NewFramerWithOptions_def
      newFramer_def id_lib_def)

theorem stream_map_consistent_witness:
  "\<exists>y. serves id_lib [] y \<and> cn_streams (sy_conn y) 2 = Some 0 \<and> sm_streamId (stream_at (sy_conn y) 0) = 2"
proof -
  let ?c = "A_CreateStream [] None False" and ?y = "ex_system []"
  let ?s = "snd (CreateStream id_lib [] None False (sy_conn ?y))"
  have "serve_step id_lib ?y [] (?y\<lparr>sy_conn := ?s\<rparr>)" by (rule api [of ?c]) simp_all
  from serves_step [OF ex_serves this] have r: "serves id_lib [] (?y\<lparr>sy_conn := ?s\<rparr>)" by simp
  have m: "cn_streams (sy_conn (?y\<lparr>sy_conn := ?s\<rparr>)) 2 = Some 0"
    by (simp add: CreateStream_def getNextStreamId_def ex_sys_conn alloc_stream_def addStream_def sendStream_def
        cn_write_def stream_at_def split: prod.split)
  from stream_map_consistent [OF r m] r m show ?thesis by blast
qed

text \<open>
  The one way a worker brings the process down: it has taken an answer to one of the
  connection's own pings whose channel was closed already.  (That nothing else closes a closed
  channel is shown with the life of the connection, theory \<open>Serve_Life\<close>.)
\<close>

lemma worker_panics:
  assumes "serves lib tr y" "serve_step lib y es y'" "sy_phase y \<noteq> Crashed" "sy_phase y' = Crashed"
  shows "\<exists>k p q ch. k < FRAME_WORKERS \<and> q_Pop (sy_queues y ! k) = Some (Some (Ping p), q) \<and>
     cn_pingId (sy_conn y) AND 1 = pg_Id p AND 1 \<and> cn_pingChans (sy_conn y) (pg_Id p) = Some ch \<and>
     cn_pings (sy_conn y) ! ch"
proof -
  have ok: "sys_ok y" using serve.run_inv [OF assms(1)] .
  have no: "sy_phase (worker_result k (resume w taken s) y) \<noteq> Crashed"
    if "k < FRAME_WORKERS" "sy_workers y ! k = Waiting w" "quiet (sy_conn y) s" for k w taken s
  proof -
    have "wait_ok s w" using ok that by (auto simp: sys_ok_def intro: quiet_wait_ok)
    from resume_ok [OF this, of taken] assms(3) show ?thesis by (auto simp: worker_result_def)
  qed
  from assms(2) show ?thesis
  proof cases
    case (pop_frame k fr q)
    then have "handleFrame lib fr (sy_conn y) = Panicked"
      using assms(3,4) by (auto simp: worker_result_def split: handled.splits)
    with ok pop_frame handleFrame_panics [of "sy_conn y" lib fr] show ?thesis
      by (auto simp: sys_ok_def)
  next
    case (data_read k r d fin n bs s)
    with no [OF data_read(3,4) s_Read_quiet [OF data_read(6)]] assms(4) show ?thesis by blast
  qed (use assms(3,4) in \<open>auto dest: no [OF _ _ quiet.ev_refl]\<close>)
qed

section \<open>A run that crashes\<close>

definition pong_bytes :: "byte list" where
  "pong_bytes = [0x80, 3, 0, 6, 0, 0, 0, 4, 0, 0, 0, 2]"

definition pong :: ping_frame where
  "pong = \<lparr>pg_CFHeader = \<lparr>cf_version = 3, cf_frameType = 6, cf_Flags = 0, cf_length = 4\<rparr>, pg_Id = 2\<rparr>"

lemma read_pong: "ReadFrame id_lib (ex_framer (ex_reader (pong_bytes @ bs))) = (Inr (Ping pong), ex_framer (ex_reader bs))"
  by (simp add: ReadFrame_def pong_bytes_def pong_def ex_framer_def ex_reader_def fReadU32_def onConn_def readU32_def
      readFull_def res_simps parseControlFrame_def maxControlFramePayload_of_def MaxDataLength_def
      cframeCtor_def frame_type_defs read_Ping_def Let_def)

definition one_frame :: "frame \<Rightarrow> u8 \<Rightarrow> priority_frame_queue" where
  "one_frame fr p = \<lparr>pq_queue = [\<lparr>pf_frame = fr, pf_priority = p, pf_insertId = 0\<rparr>],
     pq_size = QUEUE_SIZE, pq_nextInsertId = 1, pq_drain = False\<rparr>"

lemma push_one: "q_Push fr p (NewPriorityFrameQueue QUEUE_SIZE) = Some (one_frame fr p)"
  by (simp add: q_Push_def NewPriorityFrameQueue_def heap_Init_def QUEUE_SIZE_def one_frame_def Let_def
      heap_Push_def heap_up.simps)

lemma pop_one: "q_Pop (one_frame fr p) = Some (Some fr, (one_frame fr p)\<lparr>pq_queue := []\<rparr>)"
  by (simp add: q_Pop_def one_frame_def heap_Pop_def swap_at_def heap_down.simps)

text \<open>A connection with one ping out, and the same once the answer has been handled.\<close>

definition pinged :: "byte list \<Rightarrow> bool \<Rightarrow> (unit, unit) connection" where
  "pinged bs answered = \<lparr>cn_framer = \<lparr>if_f = ex_framer (ex_reader bs), if_running = True, if_open = True,
       if_pending = None, if_setOpen = True, if_timeout = 0, if_timer = No_Timer, if_expired = False\<rparr>,
     cn_closeChan_closed = False, cn_goneAway = False, cn_lastStreamChan = False, cn_goAwayTimeout = 0,
     cn_closeTimeout = 0, cn_streams = Map.empty, cn_store = [], cn_nextStreamId = 2,
     cn_receivedStreamId = 1, cn_pingId = 4, cn_pingChans = [2 \<mapsto> 0], cn_pings = [answered],
     cn_hasShutdown = False, cn_shutdown = Sd_None, cn_shutdownChan_closed = False,
     cn_tasks = [], cn_panicked = False\<rparr>"

definition ping_sys :: "byte list \<Rightarrow> bool \<Rightarrow> phase \<Rightarrow> nat \<Rightarrow> priority_frame_queue list \<Rightarrow> (unit, unit) system" where
  "ping_sys bs answered ph rr qs = \<lparr>sy_conn = pinged bs answered, sy_phase = ph, sy_roundRobin = rr,
     sy_queues = qs, sy_workers = replicate FRAME_WORKERS At_Pop\<rparr>"

abbreviation "empty_q \<equiv> NewPriorityFrameQueue QUEUE_SIZE"

lemma five: "replicate FRAME_WORKERS x = [x, x, x, x, x]"
  by (simp add: FRAME_WORKERS_def numeral_eq_Suc)

lemma ping_registers: "serve_step id_lib (ex_system bs) [] (ping_sys bs False Reading 0 (replicate FRAME_WORKERS empty_q))"
proof -
  let ?y = "ex_system bs"
  have y: "ping_sys bs False Reading 0 (replicate FRAME_WORKERS empty_q) = ?y\<lparr>sy_conn := pinged bs False\<rparr>"
    by (auto simp: ping_sys_def ex_system_def ex_new_conn NewConnection_def NewConnectionWithOptions_def
        NewFramerWithOptions_def newFramer_def id_lib_def)
  show ?thesis
    unfolding y
  proof (rule api [of "A_Ping_Register 2"])
    show "api_run id_lib (A_Ping_Register 2) (sy_conn ?y) = Some (pinged bs False)"
      by (auto simp: ex_system_def NewConnection_def NewConnectionWithOptions_def NewFramerWithOptions_def
          newFramer_def newIdleAwareFramer_def id_lib_def ping_register_def pinged_def ex_framer_def)
  qed simp
qed

lemma pong_is_read:
  "serve_step id_lib (ping_sys (pong_bytes @ bs) False Reading rr qs) []
     (ping_sys bs False (Pushing rr (Ping pong) 0) ((rr + 1) mod FRAME_WORKERS) qs)"
proof -
  let ?y = "ping_sys (pong_bytes @ bs) False Reading rr qs"
  have y: "ping_sys bs False (Pushing rr (Ping pong) 0) ((rr + 1) mod FRAME_WORKERS) qs =
      ?y\<lparr>sy_conn := pinged bs False, sy_roundRobin := (rr + 1) mod FRAME_WORKERS, sy_phase := Pushing rr (Ping pong) 0\<rparr>"
    by (simp add: ping_sys_def)
  show ?thesis
    unfolding y
    by (rule read_frame [where i = "newIdleAwareFramer (ex_framer (ex_reader bs))"])
      (simp_all add: ping_sys_def pinged_def iaf_ReadFrame_def read_pong newIdleAwareFramer_def monitor_reset_def)
qed

lemma pong_is_pushed:
  "qs ! k = empty_q \<Longrightarrow> serve_step id_lib (ping_sys bs b (Pushing k (Ping pong) 0) rr qs) [Queued k (Ping pong) 0]
     (ping_sys bs b Reading rr (qs[k := one_frame (Ping pong) 0]))"
  using push_frame [of "ping_sys bs b (Pushing k (Ping pong) 0) rr qs" k "Ping pong" 0 "one_frame (Ping pong) 0" id_lib]
  by (simp add: ping_sys_def push_one)

lemma pong_handled:
  "handleFrame id_lib (Ping pong) (pinged bs b) = (if b then Panicked else Returned None (pinged bs True))"
  by (simp add: handlePingFrame_def pinged_def pong_def)

lemma replicate_update: "(replicate n x)[k := x] = replicate n x"
  by (cases "k < n") (auto intro!: nth_equalityI simp: nth_list_update list_update_beyond)

lemma pong_is_popped:
  "qs ! k = one_frame (Ping pong) 0 \<Longrightarrow> k < FRAME_WORKERS \<Longrightarrow>
   serve_step id_lib (ping_sys bs False ph rr qs) [Popped k (Ping pong)]
     (ping_sys bs True ph rr (qs[k := (one_frame (Ping pong) 0)\<lparr>pq_queue := []\<rparr>]))"
  using pop_frame [of k "ping_sys bs False ph rr qs" "Ping pong" "(one_frame (Ping pong) 0)\<lparr>pq_queue := []\<rparr>" id_lib]
  by (simp add: ping_sys_def pop_one pong_handled worker_result_def accept_events_def replicate_update
      del: handleFrame.simps)

lemma second_pong_crashes:
  "qs ! k = one_frame (Ping pong) 0 \<Longrightarrow> k < FRAME_WORKERS \<Longrightarrow>
   serve_step id_lib (ping_sys bs True ph rr qs) [Popped k (Ping pong)]
     (ping_sys bs True Crashed rr (qs[k := (one_frame (Ping pong) 0)\<lparr>pq_queue := []\<rparr>]))"
  using pop_frame [of k "ping_sys bs True ph rr qs" "Ping pong" "(one_frame (Ping pong) 0)\<lparr>pq_queue := []\<rparr>" id_lib]
  by (simp add: ping_sys_def pop_one pong_handled worker_result_def accept_events_def
      del: handleFrame.simps)

lemma duplicate_pong_run:
  "\<exists>tr y y'. serves id_lib tr y \<and> serve_step id_lib y [Popped 1 (Ping pong)] y' \<and> sy_phase y = Reading \<and>
     sy_phase y' = Crashed \<and> sy_conn y = pinged [] True"
proof -
  let ?q = "one_frame (Ping pong) 0"
  have "serves id_lib [] (ping_sys (pong_bytes @ pong_bytes) False Reading 0 [empty_q, empty_q, empty_q, empty_q, empty_q])"
    using serves_step [OF ex_serves ping_registers] by (simp add: five)
  from serves_step [OF this pong_is_read]
  have "serves id_lib [] (ping_sys pong_bytes False (Pushing 0 (Ping pong) 0) 1 [empty_q, empty_q, empty_q, empty_q, empty_q])"
    by (simp add: FRAME_WORKERS_def)
  from serves_step [OF this pong_is_pushed]
  have "serves id_lib [Queued 0 (Ping pong) 0] (ping_sys (pong_bytes @ []) False Reading 1 [?q, empty_q, empty_q, empty_q, empty_q])" by simp
  from serves_step [OF this pong_is_read]
  have "serves id_lib [Queued 0 (Ping pong) 0] (ping_sys [] False (Pushing 1 (Ping pong) 0) 2 [?q, empty_q, empty_q, empty_q, empty_q])"
    by (simp add: FRAME_WORKERS_def numeral_2_eq_2)
  from serves_step [OF this pong_is_pushed]
  have "serves id_lib [Queued 0 (Ping pong) 0, Queued 1 (Ping pong) 0] (ping_sys [] False Reading 2 [?q, ?q, empty_q, empty_q, empty_q])" by simp
  from serves_step [OF this pong_is_popped [of _ 0]]
  have r: "serves id_lib [Queued 0 (Ping pong) 0, Queued 1 (Ping pong) 0, Popped 0 (Ping pong)] (ping_sys [] True Reading 2 [?q\<lparr>pq_queue := []\<rparr>, ?q, empty_q, empty_q, empty_q])"
    by (simp add: FRAME_WORKERS_def)
  let ?y = "ping_sys [] True Reading 2 [?q\<lparr>pq_queue := []\<rparr>, ?q, empty_q, empty_q, empty_q]"
  let ?y' = "ping_sys [] True Crashed 2 [?q\<lparr>pq_queue := []\<rparr>, ?q\<lparr>pq_queue := []\<rparr>, empty_q, empty_q, empty_q]"
  have s: "serve_step id_lib ?y [Popped 1 (Ping pong)] ?y'"
    using second_pong_crashes [of "[?q\<lparr>pq_queue := []\<rparr>, ?q, empty_q, empty_q, empty_q]" 1 "[]" Reading 2]
    by (simp add: FRAME_WORKERS_def)
  have "sy_phase ?y = Reading" "sy_phase ?y' = Crashed" "sy_conn ?y = pinged [] True" by (simp_all add: ping_sys_def)
  with r s show ?thesis by blast
qed

end
