(* ===== verification/Serve_Exec.thy ===== *)
theory Serve_Exec
  imports Serve_Inv
begin

text \<open>
  The step relation of \<open>Serve\<close> as a function: given the choice of the scheduler, the step is
  computed.  Runs of concrete systems are evaluated with it.
\<close>

datatype choice =
    C_Read
  | C_Push
  | C_Drain nat
  | C_Pop nat
  | C_Go nat
  | C_Skip nat
  | C_Take nat nat
  | C_Unread nat nat
  | C_Call api_call
  | C_Task nat
  | C_Monitor nat
  | C_Idle "nat list"
  | C_Shutdown "go_error option" nat
  | C_End

text \<open>The read loop reads a frame.\<close>

definition exec_read :: "('c, 'd) golib \<Rightarrow> ('c, 'd) system \<Rightarrow> ('c, 'd) system option" where
  "exec_read lib y =
     (case iaf_ReadFrame lib (cn_framer (sy_conn y)) of
        None \<Rightarrow> None
      | Some (Inl err, i) \<Rightarrow>
          Some (y\<lparr>sy_conn := close_closeChan (read_failed err ((sy_conn y)\<lparr>cn_framer := i\<rparr>)), sy_phase := Closing None\<rparr>)
      | Some (Inr fr, i) \<Rightarrow>
          Some (case route fr (sy_roundRobin y) ((sy_conn y)\<lparr>cn_framer := i\<rparr>) of
             (To_Queue k p, rr, s) \<Rightarrow> y\<lparr>sy_conn := s, sy_roundRobin := rr, sy_phase := Pushing k fr p\<rparr>
           | (Rejected, rr, s) \<Rightarrow> y\<lparr>sy_conn := s, sy_roundRobin := rr\<rparr>
           | (Stop g, rr, s) \<Rightarrow> y\<lparr>sy_conn := close_closeChan s, sy_phase := Closing (Some g)\<rparr>))"

definition exec_pop :: "('c, 'd) golib \<Rightarrow> nat \<Rightarrow> ('c, 'd) system \<Rightarrow> (event list \<times> ('c, 'd) system) option" where
  "exec_pop lib k y =
     (case q_Pop (sy_queues y ! k) of
        None \<Rightarrow> None
      | Some (None, q) \<Rightarrow> Some ([], y\<lparr>sy_workers := (sy_workers y)[k := Exited]\<rparr>)
      | Some (Some fr, q) \<Rightarrow>
          (let h = handleFrame lib fr (sy_conn y) in
           Some (Popped k fr # accept_events h, worker_result k h (y\<lparr>sy_queues := (sy_queues y)[k := q]\<rparr>))))"

text \<open>The value a worker waits to hand over is taken (not by a \<open>Read\<close>), or given up.\<close>

definition exec_go :: "bool \<Rightarrow> nat \<Rightarrow> ('c, 'd) system \<Rightarrow> (event list \<times> ('c, 'd) system) option" where
  "exec_go taken k y =
     (case sy_workers y ! k of
        Waiting w \<Rightarrow>
          (case w of
             Wait_Data r d fin \<Rightarrow>
               if \<not> taken \<and> sm_closeClosed (stream_at (sy_conn y) r)
               then Some ([Dropped r d], worker_result k (resume w False (sy_conn y)) y) else None
           | Wait_Header r hs fin \<Rightarrow>
               if taken \<or> sm_closeClosed (stream_at (sy_conn y) r)
               then Some ([], worker_result k (resume w taken (sy_conn y)) y) else None
           | _ \<Rightarrow> if taken then Some ([], worker_result k (resume w True (sy_conn y)) y) else None)
      | _ \<Rightarrow> None)"

definition exec_take :: "nat \<Rightarrow> nat \<Rightarrow> ('c, 'd) system \<Rightarrow> (event list \<times> ('c, 'd) system) option" where
  "exec_take k n y =
     (case sy_workers y ! k of
        Waiting (Wait_Data r d fin) \<Rightarrow>
          if sm_unread (stream_at (sy_conn y) r) = None then
            (case s_Read n (Some d) r (sy_conn y) of
               (Inr bs, s) \<Rightarrow> Some ([Taken r d, Out r bs], worker_result k (resume (Wait_Data r d fin) True s) y)
             | _ \<Rightarrow> None)
          else None
      | _ \<Rightarrow> None)"

definition exec_unread :: "nat \<Rightarrow> nat \<Rightarrow> ('c, 'd) system \<Rightarrow> (event list \<times> ('c, 'd) system) option" where
  "exec_unread r n y =
     (if r < length (cn_store (sy_conn y)) \<and> sm_unread (stream_at (sy_conn y) r) \<noteq> None then
        (case s_Read n None r (sy_conn y) of
           (Inr bs, s) \<Rightarrow> Some ([Out r bs], y\<lparr>sy_conn := s\<rparr>) | _ \<Rightarrow> None)
      else None)"

fun serve_exec :: "('c, 'd) golib \<Rightarrow> choice \<Rightarrow> ('c, 'd) system \<Rightarrow> (event list \<times> ('c, 'd) system) option" where
  "serve_exec lib C_Read y = (if sy_phase y = Reading then map_option (\<lambda>y. ([], y)) (exec_read lib y) else None)"
| "serve_exec lib C_Push y =
     (case sy_phase y of
        Pushing k fr p \<Rightarrow>
          map_option (\<lambda>q. ([Queued k fr p], y\<lparr>sy_queues := (sy_queues y)[k := q], sy_phase := Reading\<rparr>)) (q_Push fr p (sy_queues y ! k))
      | _ \<Rightarrow> None)"
| "serve_exec lib (C_Drain k) y =
     (if k < FRAME_WORKERS \<and> cn_closeChan_closed (sy_conn y)
      then Some ([], y\<lparr>sy_queues := (sy_queues y)[k := q_Drain (sy_queues y ! k)]\<rparr>) else None)"
| "serve_exec lib (C_Pop k) y = (if k < FRAME_WORKERS \<and> sy_workers y ! k = At_Pop then exec_pop lib k y else None)"
| "serve_exec lib (C_Go k) y = (if k < FRAME_WORKERS then exec_go True k y else None)"
| "serve_exec lib (C_Skip k) y = (if k < FRAME_WORKERS then exec_go False k y else None)"
| "serve_exec lib (C_Take k n) y = (if k < FRAME_WORKERS then exec_take k n y else None)"
| "serve_exec lib (C_Unread r n) y = exec_unread r n y"
| "serve_exec lib (C_Call c) y =
     (if \<forall>r\<in>set (api_refs c). r < length (cn_store (sy_conn y))
      then map_option (\<lambda>s. ([], y\<lparr>sy_conn := s\<rparr>)) (api_run lib c (sy_conn y)) else None)"
| "serve_exec lib (C_Task i) y =
     (if i < length (cn_tasks (sy_conn y))
      then Some ([], y\<lparr>sy_conn := run_task lib (cn_tasks (sy_conn y) ! i) (drop_task i (sy_conn y))\<rparr>) else None)"
| "serve_exec lib (C_Monitor n) y =
     (let ms = monitor_moves (sy_conn y) in
      if n < length ms then map_option (\<lambda>s. ([], y\<lparr>sy_conn := s\<rparr>)) (ms ! n) else None)"
| "serve_exec lib (C_Idle rs) y =
     (if if_running (cn_framer (sy_conn y)) \<and> if_expired (cn_framer (sy_conn y)) \<and>
         distinct rs \<and> set rs = ran (cn_streams (sy_conn y))
      then Some ([], y\<lparr>sy_conn := idle_expire rs (sy_conn y)\<rparr>) else None)"
| "serve_exec lib (C_Shutdown err n) y =
     (let ms = shutdown_moves err (sy_conn y) in
      if n < length ms then map_option (\<lambda>s. ([], y\<lparr>sy_conn := s\<rparr>)) (ms ! n) else None)"
| "serve_exec lib C_End y =
     (case sy_phase y of
        Closing g \<Rightarrow>
          if \<forall>k<FRAME_WORKERS. sy_workers y ! k = Exited
          then Some ([], y\<lparr>sy_conn := serve_end g (sy_conn y), sy_phase := Served\<rparr>) else None
      | _ \<Rightarrow> None)"

lemma exec_read_step: "sy_phase y = Reading \<Longrightarrow> exec_read lib y = Some y' \<Longrightarrow> serve_step lib y [] y'"
  by (auto simp: exec_read_def intro: read_frame reject_frame read_goaway read_error
      split: option.splits prod.splits sum.splits routed.splits)

lemma exec_moves_step:
  "n < length (monitor_moves (sy_conn y)) \<Longrightarrow> monitor_moves (sy_conn y) ! n = Some s \<Longrightarrow>
     serve_step lib y [] (y\<lparr>sy_conn := s\<rparr>)"
  "n < length (shutdown_moves err (sy_conn y)) \<Longrightarrow> shutdown_moves err (sy_conn y) ! n = Some s \<Longrightarrow>
     serve_step lib y [] (y\<lparr>sy_conn := s\<rparr>)"
  by (metis nth_mem monitor, metis nth_mem shutting_down)

lemma exec_pop_step:
  "k < FRAME_WORKERS \<Longrightarrow> sy_workers y ! k = At_Pop \<Longrightarrow> exec_pop lib k y = Some (es, y') \<Longrightarrow> serve_step lib y es y'"
  by (auto simp: exec_pop_def Let_def intro: pop_frame worker_exits split: option.splits prod.splits)

lemma exec_go_step:
  "k < FRAME_WORKERS \<Longrightarrow> exec_go taken k y = Some (es, y') \<Longrightarrow> serve_step lib y es y'"
  by (auto simp: exec_go_def intro: handler_returns start_taken header_taken header_dropped data_dropped
      split: worker_pc.splits wait.splits if_splits) (cases taken; auto intro: header_taken header_dropped)

lemma exec_take_step:
  "k < FRAME_WORKERS \<Longrightarrow> exec_take k n y = Some (es, y') \<Longrightarrow> serve_step lib y es y'"
  by (auto simp: exec_take_def intro: data_read split: worker_pc.splits wait.splits if_splits prod.splits sum.splits)

lemma exec_unread_step: "exec_unread r n y = Some (es, y') \<Longrightarrow> serve_step lib y es y'"
  by (auto simp: exec_unread_def intro: unread_read split: if_splits prod.splits sum.splits)

lemma exec_step: "serve_exec lib c y = Some (es, y') \<Longrightarrow> serve_step lib y es y'"
  by (cases c) (auto simp del: resume.simps intro: exec_read_step exec_pop_step exec_go_step exec_take_step exec_unread_step
      exec_moves_step idle push_frame drain_queue api task serve_ends simp: Let_def split: if_splits phase.splits)

text \<open>Every step is the step of some choice.\<close>

lemma step_exec: "serve_step lib y es y' \<Longrightarrow> \<exists>c. serve_exec lib c y = Some (es, y')"
proof (induction rule: serve_step.induct)
  case (read_frame y fr i k p rr s)
  then show ?case by (intro exI [of _ "C_Read"]) (simp add: exec_read_def del: resume.simps handleFrame.simps)
next
  case (reject_frame y fr i rr s)
  then show ?case by (intro exI [of _ "C_Read"]) (simp add: exec_read_def del: resume.simps handleFrame.simps)
next
  case (read_goaway y fr i g rr s)
  then show ?case by (intro exI [of _ "C_Read"]) (simp add: exec_read_def del: resume.simps handleFrame.simps)
next
  case (read_error y err i)
  then show ?case by (intro exI [of _ "C_Read"]) (simp add: exec_read_def del: resume.simps handleFrame.simps)
next
  case (push_frame y k fr p q)
  then show ?case by (intro exI [of _ "C_Push"]) (simp del: resume.simps handleFrame.simps)
next
  case (drain_queue k y)
  then show ?case by (intro exI [of _ "C_Drain k"]) (simp del: resume.simps handleFrame.simps)
next
  case (pop_frame k y fr q)
  then show ?case by (intro exI [of _ "C_Pop k"]) (simp add: exec_pop_def Let_def del: resume.simps handleFrame.simps)
next
  case (worker_exits k y q)
  then show ?case by (intro exI [of _ "C_Pop k"]) (simp add: exec_pop_def del: resume.simps handleFrame.simps)
next
  case (handler_returns k y r)
  then show ?case by (intro exI [of _ "C_Go k"]) (simp add: exec_go_def del: resume.simps handleFrame.simps)
next
  case (start_taken k y r)
  then show ?case by (intro exI [of _ "C_Go k"]) (simp add: exec_go_def del: resume.simps handleFrame.simps)
next
  case (header_taken k y r hs fin)
  then show ?case by (intro exI [of _ "C_Go k"]) (simp add: exec_go_def del: resume.simps handleFrame.simps)
next
  case (header_dropped k y r hs fin)
  then show ?case by (intro exI [of _ "C_Skip k"]) (simp add: exec_go_def del: resume.simps handleFrame.simps)
next
  case (data_read k y r d fin n bs s)
  then show ?case by (intro exI [of _ "C_Take k n"]) (simp add: exec_take_def del: resume.simps handleFrame.simps)
next
  case (data_dropped k y r d fin)
  then show ?case by (intro exI [of _ "C_Skip k"]) (simp add: exec_go_def del: resume.simps handleFrame.simps)
next
  case (unread_read r y u n bs s)
  then show ?case by (intro exI [of _ "C_Unread r n"]) (simp add: exec_unread_def del: resume.simps handleFrame.simps)
next
  case (api c y s)
  then show ?case by (intro exI [of _ "C_Call c"]) (simp del: resume.simps handleFrame.simps)
next
  case (task i y)
  then show ?case by (intro exI [of _ "C_Task i"]) (simp del: resume.simps handleFrame.simps)
next
  case (monitor s y)
  then obtain n where "n < length (monitor_moves (sy_conn y))" "monitor_moves (sy_conn y) ! n = Some s"
    by (metis in_set_conv_nth)
  then show ?case by (intro exI [of _ "C_Monitor n"]) (simp add: Let_def)
next
  case (shutting_down s err y)
  then obtain n where "n < length (shutdown_moves err (sy_conn y))" "shutdown_moves err (sy_conn y) ! n = Some s"
    by (metis in_set_conv_nth)
  then show ?case by (intro exI [of _ "C_Shutdown err n"]) (simp add: Let_def)
next
  case (idle y rs)
  then show ?case by (intro exI [of _ "C_Idle rs"]) simp
next
  case (serve_ends y g)
  then show ?case by (intro exI [of _ "C_End"]) (simp del: resume.simps handleFrame.simps)
qed

section \<open>Runs\<close>

fun exec_run :: "('c, 'd) golib \<Rightarrow> choice list \<Rightarrow> ('c, 'd) system \<Rightarrow> (event list \<times> ('c, 'd) system) option" where
  "exec_run lib [] y = Some ([], y)"
| "exec_run lib (c # cs) y =
     (case serve_exec lib c y of
        None \<Rightarrow> None
      | Some (es, y) \<Rightarrow> map_option (\<lambda>(tr, y). (es @ tr, y)) (exec_run lib cs y))"

lemma exec_run_from:
  "serves lib tr y \<Longrightarrow> exec_run lib cs y = Some (tr', y') \<Longrightarrow> serves lib (tr @ tr') y'"
proof (induction cs arbitrary: tr tr' y)
  case (Cons c cs)
  then obtain es y1 tr1 where 1: "serve_exec lib c y = Some (es, y1)" "exec_run lib cs y1 = Some (tr1, y')" "tr' = es @ tr1"
    by (auto split: option.splits)
  from Cons.IH [OF serves_step [OF Cons.prems(1) exec_step [OF 1(1)]] 1(2)] 1(3) show ?case by simp
qed simp

lemma exec_run_serves: "serve_start lib y \<Longrightarrow> exec_run lib cs y = Some (tr, y') \<Longrightarrow> serves lib tr y'"
  using exec_run_from [OF run_start] by fastforce

end
