(* ===== verification/Serve_Example.thy ===== *)
theory Serve_Example
  imports Serve_Exec
begin

text \<open>
  A client's run, for the witnesses: it opens a stream, the reply and two data frames come in,
  and the application reads.  Each step is computed with \<open>serve_exec\<close>.
\<close>

section \<open>The states of the run\<close>

definition ex_out_framer :: "byte list \<Rightarrow> unit option \<Rightarrow> byte list \<Rightarrow> (unit, unit) framer" where
  "ex_out_framer out d bs =
     (ex_framer (ex_reader bs))\<lparr>f_w := \<lparr>wr_out = out, wr_fault = None\<rparr>, headerDecompressor := d\<rparr>"

definition ex_client_conn :: "byte list \<Rightarrow> (unit, unit) connection" where
  "ex_client_conn bs = \<lparr>cn_framer = \<lparr>if_f = ex_out_framer [] None bs, if_running = True, if_open = True,
       if_pending = None, if_setOpen = True, if_timeout = 0, if_timer = No_Timer, if_expired = False\<rparr>,
     cn_closeChan_closed = False, cn_goneAway = False, cn_lastStreamChan = False, cn_goAwayTimeout = 0,
     cn_closeTimeout = 0, cn_streams = Map.empty, cn_store = [], cn_nextStreamId = 1,
     cn_receivedStreamId = 2, cn_pingId = 1, cn_pingChans = Map.empty,
     cn_pings = [], cn_hasShutdown = False, cn_shutdown = Sd_None, cn_shutdownChan_closed = False,
     cn_tasks = [], cn_panicked = False\<rparr>"

text \<open>The client with stream 1 open: whether it was replied to, its unread data and priority.\<close>

definition ex_open :: "byte list \<Rightarrow> unit option \<Rightarrow> byte list \<Rightarrow> bool \<Rightarrow> byte list option \<Rightarrow> u8 \<Rightarrow> (unit, unit) connection" where
  "ex_open out d bs replied u p = (ex_client_conn bs)\<lparr>cn_framer := newIdleAwareFramer (ex_out_framer out d bs),
     cn_streams := [1 \<mapsto> 0], cn_nextStreamId := 3,
     cn_store := [\<lparr>sm_streamId = 1, sm_parent = None, sm_startClosed = replied, sm_unread = u,
       sm_priority = p, sm_headers = [], sm_finished = False, sm_hasReplyCond = False,
       sm_replied = replied, sm_closeClosed = False\<rparr>]\<rparr>"

definition ex_q :: "(frame \<times> u8 \<times> u64) list \<Rightarrow> u64 \<Rightarrow> priority_frame_queue" where
  "ex_q items n = \<lparr>pq_queue = map (\<lambda>(fr, p, i). \<lparr>pf_frame = fr, pf_priority = p, pf_insertId = i\<rparr>) items,
     pq_size = QUEUE_SIZE, pq_nextInsertId = n, pq_drain = False\<rparr>"

text \<open>Stream 1 belongs to worker 1.\<close>

definition ex_at :: "(unit, unit) connection \<Rightarrow> phase \<Rightarrow> priority_frame_queue \<Rightarrow> worker_pc \<Rightarrow> (unit, unit) system" where
  "ex_at c ph q w = \<lparr>sy_conn = c, sy_phase = ph, sy_roundRobin = 0,
     sy_queues = [empty_q, q, empty_q, empty_q, empty_q], sy_workers = [At_Pop, w, At_Pop, At_Pop, At_Pop]\<rparr>"

lemma ex_at_start: "serve_start id_lib (ex_at (ex_client_conn bs) Reading (ex_q [] 0) At_Pop)"
  unfolding serve_start_def
  by (rule exI [of _ ex_writer], rule exI [of _ "ex_reader bs"], rule exI [of _ False], rule exI [of _ "[]"])
    (simp add: ex_at_def ex_client_conn_def NewConnectionWithOptions_def NewFramerWithOptions_def newFramer_def id_lib_def
      newIdleAwareFramer_def ex_framer_def five ex_out_framer_def ex_writer_def ex_q_def NewPriorityFrameQueue_def heap_Init_def)

section \<open>Frames\<close>

definition reply_bytes :: "byte list" where
  "reply_bytes = [0x80, 3, 0, 2, 0, 0, 0, 8, 0, 0, 0, 1, 0, 0, 0, 0]"

definition ex_reply :: syn_reply_frame where
  "ex_reply = \<lparr>sr_CFHeader = \<lparr>cf_version = 3, cf_frameType = 2, cf_Flags = 0, cf_length = 8\<rparr>, sr_StreamId = 1, sr_Headers = []\<rparr>"

definition data_bytes :: "byte \<Rightarrow> byte list" where
  "data_bytes x = [0, 0, 0, 1, 0, 0, 0, 2, x, 7]"

definition ex_data :: "byte \<Rightarrow> data_frame" where
  "ex_data x = \<lparr>df_StreamId = 1, df_Flags = 0, df_Data = [x, 7]\<rparr>"

lemmas ex_read = ReadFrame_def ex_out_framer_def ex_framer_def ex_reader_def fReadU32_def onConn_def readU32_def
  readFull_def res_simps parseControlFrame_def maxControlFramePayload_of_def MaxDataLength_def
  cframeCtor_def frame_type_defs Let_def id_lib_def readHeaderBlock_def uncorkHeaderDecompressor_def
  parseHeaderValueBlock_def maxHeaders_of_def defaultMaxHeaderCount_def readSynReplyFrame_def has_invalid_def
  parseDataFrame_def

lemma ex_read_reply:
  "ReadFrame id_lib (ex_out_framer out None (reply_bytes @ bs)) = (Inr (SynReply ex_reply), ex_out_framer out (Some ()) bs)"
  by (simp add: reply_bytes_def ex_reply_def ex_read)

lemma ex_read_data:
  "ReadFrame id_lib (ex_out_framer out (Some ()) (data_bytes x @ bs)) = (Inr (Data (ex_data x)), ex_out_framer out (Some ()) bs)"
  by (simp add: data_bytes_def ex_data_def ex_read)

definition ex_syn_1 :: syn_stream_frame where
  "ex_syn_1 = \<lparr>ss_CFHeader = flags_header 0, ss_StreamId = 1, ss_AssociatedToStreamId = 0, ss_Priority = 0,
     ss_Slot = 0, ss_Headers = []\<rparr>"

lemma ex_write_syn:
  "\<exists>out fr'. WriteFrame id_lib (ex_out_framer [] d bs) (SynStream ex_syn_1) = (None, ex_out_framer out d bs, fr')"
  by (auto simp: ex_out_framer_def flags_header_def ex_framer_def ex_reader_def id_lib_def Let_def MaxDataLength_def
      MaxInt32_def marshalHeaders_def writeHeaderValueBlock_def headerCompressor_Write_def headerCompressor_Flush_def
      reset_headerBuf_def f_send_def write_all_ok ex_syn_1_def writeSynStreamFrame_def simp del: write_all.simps)

section \<open>Steps\<close>

lemma ex_create:
  "\<exists>out. CreateStream id_lib [] None False (ex_client_conn bs) = ((Some 0, None), ex_open out None bs False None 0)"
proof -
  from ex_write_syn [of None bs] obtain out fr' where
    w: "WriteFrame id_lib (ex_out_framer [] None bs) (SynStream ex_syn_1) = (None, ex_out_framer out None bs, fr')" by blast
  from w [unfolded ex_syn_1_def] show ?thesis
    by (intro exI [of _ out]) (simp add: CreateStream_def getNextStreamId_def ex_client_conn_def alloc_stream_def
      addStream_def sendStream_def cn_write_def newIdleAwareFramer_def monitor_reset_def stream_at_def iaf_WriteFrame_def ex_open_def Let_def fin_flag_def
      del: WriteFrame.simps)
qed

lemma partition_1: "partition_of 1 = 1"
  by (simp add: partition_of_def FRAME_WORKERS_def)

lemmas ex_step = ex_at_def ex_open_def ex_client_conn_def stream_at_def FRAME_WORKERS_def getStream_def Let_def
  upd_stream_def worker_result_def accept_events_def

lemma ex_call_create:
  "\<exists>out. serve_exec id_lib (C_Call (A_CreateStream [] None False)) (ex_at (ex_client_conn bs) Reading (ex_q [] 0) At_Pop) =
     Some ([], ex_at (ex_open out None bs False None 0) Reading (ex_q [] 0) At_Pop)"
  using ex_create [of bs] by (auto simp: ex_at_def)

lemma ex_call_priority:
  "serve_exec id_lib (C_Call (A_SetPriority p' 0)) (ex_at (ex_open out d bs r u p) ph q w) =
     Some ([], ex_at (ex_open out d bs r u p') ph q w)"
  by (simp add: ex_step SetPriority_def)

lemma ex_reads_reply:
  "serve_exec id_lib C_Read (ex_at (ex_open out None (reply_bytes @ bs) False None p) Reading q w) =
     Some ([], ex_at (ex_open out (Some ()) bs False None p) (Pushing 1 (SynReply ex_reply) p) q w)"
  by (simp add: ex_step exec_read_def iaf_ReadFrame_def newIdleAwareFramer_def monitor_reset_def ex_read_reply stream_route_def getStreamPriority_def
      ex_reply_def partition_1)

lemma ex_reads_data:
  "serve_exec id_lib C_Read (ex_at (ex_open out (Some ()) (data_bytes x @ bs) r u p) Reading q w) =
     Some ([], ex_at (ex_open out (Some ()) bs r u p) (Pushing 1 (Data (ex_data x)) p) q w)"
  by (simp add: ex_step exec_read_def iaf_ReadFrame_def newIdleAwareFramer_def monitor_reset_def ex_read_data stream_route_def getStreamPriority_def
      ex_data_def partition_1)

lemma ex_push:
  "serve_exec id_lib C_Push (ex_at c (Pushing 1 fr p) (ex_q [] n) w) =
     Some ([Queued 1 fr p], ex_at c Reading (ex_q [(fr, p, n)] (n + 1)) w)"
  by (simp add: ex_at_def q_Push_def QUEUE_SIZE_def ex_q_def Let_def heap_Push_def heap_up.simps)

lemma ex_pop:
  "q_Pop (ex_q [(fr, p, i)] n) = Some (Some fr, ex_q [] n)"
  by (simp add: q_Pop_def ex_q_def heap_Pop_def swap_at_def heap_down.simps)

lemma ex_pop_reply:
  "serve_exec id_lib (C_Pop 1) (ex_at (ex_open out d bs False u p) ph (ex_q [(SynReply ex_reply, p', i)] n) At_Pop) =
     Some ([Popped 1 (SynReply ex_reply)], ex_at (ex_open out d bs True u p) ph (ex_q [] n) At_Pop)"
  by (simp add: ex_step exec_pop_def ex_pop handleReplyFrame_def ex_reply_def close_start_def)

lemma ex_accept:
  "q_Pop q = Some (Some (Data (ex_data x)), q') \<Longrightarrow>
   serve_exec id_lib (C_Pop 1) (ex_at (ex_open out d bs True u p) ph q At_Pop) =
     Some ([Popped 1 (Data (ex_data x)), Accepted 0 [x, 7]],
       ex_at (ex_open out d bs True u p) ph q' (Waiting (Wait_Data 0 [x, 7] False)))"
  by (simp add: ex_step exec_pop_def ex_pop handleDataFrame_def ex_data_def)

lemma ex_take:
  "serve_exec id_lib (C_Take 1 1) (ex_at (ex_open out d bs True None p) ph q (Waiting (Wait_Data 0 [x, 7] False))) =
     Some ([Taken 0 [x, 7], Out 0 [x]], ex_at (ex_open out d bs True (Some [7]) p) ph q At_Pop)"
  "serve_exec id_lib (C_Take 1 9) (ex_at (ex_open out d bs True None p) ph q (Waiting (Wait_Data 0 [x, 7] False))) =
     Some ([Taken 0 [x, 7], Out 0 [x, 7]], ex_at (ex_open out d bs True None p) ph q At_Pop)"
  by (simp_all add: ex_step exec_take_def s_Read_def copy_unread_def resume.simps data_fin_def)

section \<open>Two runs\<close>

text \<open>The first data frame is read in part; the second is held out by the worker.\<close>

definition ex_reading :: "choice list" where
  "ex_reading = [C_Call (A_CreateStream [] None False), C_Read, C_Push, C_Pop 1, C_Read, C_Push, C_Pop 1,
     C_Take 1 1, C_Read, C_Push, C_Pop 1]"

definition ex_trace :: "event list" where
  "ex_trace = [Queued 1 (SynReply ex_reply) 0, Popped 1 (SynReply ex_reply),
     Queued 1 (Data (ex_data 5)) 0, Popped 1 (Data (ex_data 5)), Accepted 0 [5, 7], Taken 0 [5, 7], Out 0 [5],
     Queued 1 (Data (ex_data 6)) 0, Popped 1 (Data (ex_data 6)), Accepted 0 [6, 7]]"

lemma ex_run:
  "\<exists>out. serves id_lib ex_trace (ex_at (ex_open out (Some ()) [0] True (Some [7]) 0) Reading (ex_q [] 3)
     (Waiting (Wait_Data 0 [6, 7] False)))"
proof -
  let ?bs = "reply_bytes @ data_bytes 5 @ data_bytes 6 @ [0]"
  obtain out where o: "serve_exec id_lib (C_Call (A_CreateStream [] None False))
      (ex_at (ex_client_conn ?bs) Reading (ex_q [] 0) At_Pop) =
     Some ([], ex_at (ex_open out None ?bs False None 0) Reading (ex_q [] 0) At_Pop)"
    using ex_call_create by blast
  have "exec_run id_lib ex_reading (ex_at (ex_client_conn ?bs) Reading (ex_q [] 0) At_Pop) =
    Some (ex_trace, ex_at (ex_open out (Some ()) [0] True (Some [7]) 0) Reading (ex_q [] 3)
      (Waiting (Wait_Data 0 [6, 7] False)))"
    by (simp add: ex_reading_def ex_trace_def o ex_reads_reply ex_reads_data ex_push ex_pop_reply ex_accept ex_pop ex_take
        del: serve_exec.simps One_nat_def)
  from exec_run_serves [OF ex_at_start this] show ?thesis ..
qed

text \<open>The run stopped when the reply is in its queue.\<close>

lemma ex_queued_run:
  "\<exists>tr y. serves id_lib tr y \<and> SynReply ex_reply \<in> pf_frame ` set (pq_queue (sy_queues y ! 1))"
proof -
  let ?bs = "reply_bytes @ [0]"
  obtain out where o: "serve_exec id_lib (C_Call (A_CreateStream [] None False))
      (ex_at (ex_client_conn ?bs) Reading (ex_q [] 0) At_Pop) =
     Some ([], ex_at (ex_open out None ?bs False None 0) Reading (ex_q [] 0) At_Pop)"
    using ex_call_create by blast
  let ?y = "ex_at (ex_open out (Some ()) [0] False None 0) Reading (ex_q [(SynReply ex_reply, 0, 0)] 1) At_Pop"
  have "exec_run id_lib [C_Call (A_CreateStream [] None False), C_Read, C_Push]
      (ex_at (ex_client_conn ?bs) Reading (ex_q [] 0) At_Pop) = Some ([Queued 1 (SynReply ex_reply) 0], ?y)"
    by (simp add: o ex_reads_reply ex_push del: serve_exec.simps One_nat_def)
  from exec_run_serves [OF ex_at_start this] show ?thesis
    by (intro exI [of _ "[Queued 1 (SynReply ex_reply) 0]"] exI [of _ ?y] conjI) (simp_all add: ex_at_def ex_q_def)
qed

text \<open>
  The application changes the priority of the stream between the two frames: the worker takes
  the second one first.
\<close>

lemma ex_push_urgent:
  "serve_exec id_lib C_Push (ex_at c (Pushing 1 fr' 0) (ex_q [(fr, 5, 1)] 2) w) =
     Some ([Queued 1 fr' 0], ex_at c Reading (ex_q [(fr', 0, 2), (fr, 5, 1)] 3) w)"
  by (simp add: ex_at_def q_Push_def QUEUE_SIZE_def ex_q_def Let_def heap_Push_def heap_up.simps frameQueue_Less_def
      swap_at_def)

lemma ex_pop_urgent: "q_Pop (ex_q [(fr', 0, 2), (fr, 5, 1)] n) = Some (Some fr', ex_q [(fr, 5, 1)] n)"
  by (simp add: q_Pop_def ex_q_def heap_Pop_def swap_at_def heap_down.simps)

definition ex_overtaking :: "choice list" where
  "ex_overtaking = [C_Call (A_CreateStream [] None False), C_Read, C_Push, C_Pop 1,
     C_Call (A_SetPriority 5 0), C_Read, C_Push, C_Call (A_SetPriority 0 0), C_Read, C_Push,
     C_Pop 1, C_Take 1 9, C_Pop 1, C_Take 1 9]"

definition ex_overtaken :: "event list" where
  "ex_overtaken = [Queued 1 (SynReply ex_reply) 0, Popped 1 (SynReply ex_reply),
     Queued 1 (Data (ex_data 5)) 5, Queued 1 (Data (ex_data 6)) 0,
     Popped 1 (Data (ex_data 6)), Accepted 0 [6, 7], Taken 0 [6, 7], Out 0 [6, 7],
     Popped 1 (Data (ex_data 5)), Accepted 0 [5, 7], Taken 0 [5, 7], Out 0 [5, 7]]"

lemma ex_overtaking_run:
  "\<exists>y. serves id_lib ex_overtaken y \<and>
     sm_streamId (stream_at (sy_conn y) 0) = 1"
proof -
  let ?bs = "reply_bytes @ data_bytes 5 @ data_bytes 6 @ [0]"
  obtain out where o: "serve_exec id_lib (C_Call (A_CreateStream [] None False))
      (ex_at (ex_client_conn ?bs) Reading (ex_q [] 0) At_Pop) =
     Some ([], ex_at (ex_open out None ?bs False None 0) Reading (ex_q [] 0) At_Pop)"
    using ex_call_create by blast
  let ?y = "ex_at (ex_open out (Some ()) [0] True None 0) Reading (ex_q [] 3) At_Pop"
  have "exec_run id_lib ex_overtaking (ex_at (ex_client_conn ?bs) Reading (ex_q [] 0) At_Pop) =
    Some (ex_overtaken, ?y)"
    by (simp add: ex_overtaking_def ex_overtaken_def o ex_reads_reply ex_reads_data ex_push ex_push_urgent ex_call_priority
        ex_pop_reply ex_accept ex_pop ex_pop_urgent ex_take del: serve_exec.simps One_nat_def)
  from exec_run_serves [OF ex_at_start this] show ?thesis
    by (intro exI [of _ ?y]) (simp add: ex_at_def ex_open_def stream_at_def)
qed

end
