(* ===== verification/Serve_Data.thy ===== *)
theory Serve_Data
  imports Serve_Inv Priority_Runs
begin

text \<open>
  The data of a stream from its frames to its reader: frames of one stream stay with one worker,
  and what the reader gets is what the worker accepted, in order, with nothing lost before the
  stream is closed.
\<close>

section \<open>Partitions\<close>

fun frame_in :: "nat \<Rightarrow> frame \<Rightarrow> bool" where
  "frame_in k (SynStream f) = (partition_of (ss_StreamId f) = k)"
| "frame_in k (SynReply f) = (partition_of (sr_StreamId f) = k)"
| "frame_in k (RstStream f) = (partition_of (rs_StreamId f) = k)"
| "frame_in k (Headers f) = (partition_of (hd_StreamId f) = k)"
| "frame_in k (Data f) = (partition_of (df_StreamId f) = k)"
| "frame_in k _ = True"

definition data_waits_ok :: "('c, 'd) system \<Rightarrow> bool" where
  "data_waits_ok y = (\<forall>k<FRAME_WORKERS. \<forall>r d fin. sy_workers y ! k = Waiting (Wait_Data r d fin) \<longrightarrow>
     partition_of (sm_streamId (stream_at (sy_conn y) r)) = k)"

definition queues_ok :: "('c, 'd) system \<Rightarrow> bool" where
  "queues_ok y = (length (sy_queues y) = FRAME_WORKERS \<and> sy_roundRobin y < FRAME_WORKERS \<and>
     (\<forall>k<FRAME_WORKERS. \<forall>p\<in>set (pq_queue (sy_queues y ! k)). frame_in k (pf_frame p)) \<and>
     (\<forall>k fr p. sy_phase y = Pushing k fr p \<longrightarrow> k < FRAME_WORKERS \<and> frame_in k fr))"

definition routed_ok :: "('c, 'd) system \<Rightarrow> bool" where
  "routed_ok y = (sys_ok y \<and> queues_ok y \<and> data_waits_ok y)"

lemma partition_of_less: "partition_of sid < FRAME_WORKERS"
proof -
  have "unat (sid mod 5) = unat sid mod 5" by (simp add: unat_mod)
  then show ?thesis by (simp add: partition_of_def FRAME_WORKERS_def)
qed

lemma route_in:
  assumes "route fr rr s = (To_Queue k p, rr', s')" "rr < FRAME_WORKERS"
  shows "k < FRAME_WORKERS \<and> frame_in k fr \<and> rr' < FRAME_WORKERS"
  using assms by (cases fr) (auto simp: stream_route_def partition_of_less [unfolded FRAME_WORKERS_def] FRAME_WORKERS_def split: prod.splits bool.splits)

lemma route_Rejected: "route fr rr s = (Rejected, rr', s') \<Longrightarrow> rr' = rr"
  by (cases fr) (auto simp: stream_route_def split: prod.splits bool.splits)

lemma heap_up_set: "j < length h \<Longrightarrow> set (heap_up lss j h) = set h"
  by (metis heap_up_contents set_mset_mset)

lemma q_Push_set: "q_Push fr p q = Some q' \<Longrightarrow> pf_frame ` set (pq_queue q') = insert fr (pf_frame ` set (pq_queue q))"
  by (auto simp: q_Push_def Let_def heap_Push_def heap_up_set split: if_splits)

lemma heap_Pop_set:
  assumes "heap_Pop lss h = Some (x, h')"
  shows "x \<in> set h \<and> set h' \<subseteq> set h"
proof -
  define n where "n = length h - 1"
  define d where "d = heap_down lss 0 n (swap_at 0 n h)"
  from assms have h: "length h = Suc n" "x = d ! n" "h' = take n d"
    by (auto simp: heap_Pop_def Let_def n_def d_def split: if_splits)
  have "mset (swap_at 0 n h) = mset h" using h(1) by (intro mset_swap_at) auto
  moreover have "length d = length h \<and> mset d = mset (swap_at 0 n h)"
  proof (cases "n = 0")
    case True
    then have "d = swap_at 0 n h" unfolding d_def by (subst heap_down.simps) simp
    then show ?thesis by simp
  next
    case False
    with h(1) heap_down_contents [of 0 n "swap_at 0 n h" lss] show ?thesis unfolding d_def by simp
  qed
  ultimately have "length d = length h" "mset d = mset h" by (simp_all only:)
  then have "n < length d" "set d = set h" using h(1) mset_eq_setD [of d h] by (simp, blast)
  then show ?thesis unfolding h(2,3) using nth_mem [of n d] set_take_subset [of n d] by blast
qed

lemma q_Pop_set:
  "q_Pop q = Some (Some fr, q') \<Longrightarrow> fr \<in> pf_frame ` set (pq_queue q) \<and> set (pq_queue q') \<subseteq> set (pq_queue q)"
  by (auto simp: q_Pop_def dest!: heap_Pop_set split: if_splits option.splits)

lemma handled_data_wait:
  assumes "conn_ok s" "handleFrame lib fr s = Suspended (Wait_Data r d fin) s'" "frame_in k fr"
  shows "partition_of (sm_streamId (stream_at s r)) = k \<and> s' = s"
  using assms by (cases fr) (auto simp: handleStreamFrame_def handleReplyFrame_def handleResetFrame_def
      handleHeaderFrame_def handleDataFrame_def Let_def returns_def conn_ok_def wf_map_def getStream_def
      split: option.splits if_splits prod.splits)

lemma resume_returns: "resume w taken s = Suspended v s' \<Longrightarrow> False"
  by (cases w) (auto simp: resume.simps split: option.splits)

section \<open>Partitions are kept\<close>

lemma keeps_id: "keeps s s' \<Longrightarrow> r < length (cn_store s) \<Longrightarrow> sm_streamId (stream_at s' r) = sm_streamId (stream_at s r)"
  by (simp add: evolves_def same_data_def)

lemma quiet_id: "quiet s s' \<Longrightarrow> r < length (cn_store s) \<Longrightarrow> sm_streamId (stream_at s' r) = sm_streamId (stream_at s r)"
  by (simp add: evolves_def same_stream_def)

text \<open>Ids do not change, whatever the step.\<close>

definition same_ids :: "('c, 'd) connection \<Rightarrow> ('c, 'd) connection \<Rightarrow> bool" where
  "same_ids s s' = (length (cn_store s) \<le> length (cn_store s') \<and>
     (\<forall>r<length (cn_store s). sm_streamId (stream_at s' r) = sm_streamId (stream_at s r)))"

lemma same_ids_keeps: "keeps s s' \<Longrightarrow> same_ids s s'"
  by (auto simp: same_ids_def evolves_def same_data_def)

lemma same_ids_trans: "same_ids a b \<Longrightarrow> same_ids b c \<Longrightarrow> same_ids a c"
  by (auto simp: same_ids_def)

lemma same_ids_quiet: "quiet s s' \<Longrightarrow> same_ids s s'"
  by (auto simp: same_ids_def evolves_def same_stream_def)

lemma data_waits_conn:
  assumes "data_waits_ok y" "sys_ok y" "same_ids (sy_conn y) (sy_conn y')" "sy_workers y' = sy_workers y"
  shows "data_waits_ok y'"
  using assms by (auto simp: data_waits_ok_def sys_ok_def wait_ok_def same_ids_def)

lemma data_waits_worker:
  assumes "data_waits_ok y" "sys_ok y" "k < FRAME_WORKERS" "same_ids (sy_conn y) (sy_conn y')"
    "sy_workers y' = (sy_workers y)[k := pc]"
    "\<And>r d fin. pc = Waiting (Wait_Data r d fin) \<Longrightarrow> partition_of (sm_streamId (stream_at (sy_conn y') r)) = k"
  shows "data_waits_ok y'"
  using assms by (auto simp: data_waits_ok_def sys_ok_def wait_ok_def same_ids_def nth_list_update)

lemma worker_result_cases:
  obtains (panic) "h = Panicked" "worker_result k h y = y\<lparr>sy_phase := Crashed\<rparr>"
  | (go) err s where "h = Returned err s" "worker_result k h y = y\<lparr>sy_conn := s, sy_workers := (sy_workers y)[k := At_Pop]\<rparr>"
  | (wait) w s where "h = Suspended w s" "worker_result k h y = y\<lparr>sy_conn := s, sy_workers := (sy_workers y)[k := Waiting w]\<rparr>"
  by (cases h) (auto simp: worker_result_def)

lemma result_conn: "sy_conn (worker_result k h y) = handled_conn (sy_conn y) h"
  by (cases h) (simp_all add: worker_result_def)

lemma s_Read_ids: "s_Read n x r s = (res, s') \<Longrightarrow> same_ids s s'"
  by (rule same_ids_quiet) (rule s_Read_quiet)

text \<open>No step changes the id of a stream.\<close>

lemma step_same_ids:
  assumes "serve_step lib y es y'"
  shows "same_ids (sy_conn y) (sy_conn y')"
  using assms
proof cases
  case (read_frame fr i k p rr s)
  with keeps.ev_framer [OF keeps.ev_route [OF read_frame(5)]] show ?thesis by (simp add: same_ids_keeps)
next
  case (reject_frame fr i rr s)
  with keeps.ev_framer [OF keeps.ev_route [OF reject_frame(5)]] show ?thesis by (simp add: same_ids_keeps)
next
  case (read_goaway fr i g rr s)
  with keeps.ev_closeChan [OF keeps.ev_framer [OF keeps.ev_route [OF read_goaway(5)]]] show ?thesis
    by (simp add: same_ids_keeps)
next
  case (read_error err i)
  have "keeps (sy_conn y) (close_closeChan (read_failed err ((sy_conn y)\<lparr>cn_framer := i\<rparr>)))"
    by (intro keeps.ev_closeChan keeps.ev_framer [OF keeps.ev_read_failed])
  with read_error show ?thesis by (simp add: same_ids_keeps)
next
  case (pop_frame k fr q)
  then show ?thesis by (simp add: result_conn same_ids_keeps keeps.ev_handle)
next
  case (data_read k r d fin n bs s)
  from same_ids_trans [OF s_Read_ids [OF data_read(6)] same_ids_keeps [OF keeps.ev_data_fin]] show ?thesis
    by (simp add: data_read(2) result_conn resume.simps)
next
  case (unread_read r u n bs s)
  then show ?thesis by (simp add: s_Read_ids)
next
  case (api c s)
  then show ?thesis by (simp add: same_ids_keeps keeps.ev_api)
next
  case (task i)
  then show ?thesis by (simp add: same_ids_keeps keeps.ev_task)
next
  case (monitor s)
  then show ?thesis by (simp add: same_ids_keeps keeps.ev_monitor)
next
  case (shutting_down s err)
  then show ?thesis by (simp add: same_ids_keeps keeps.ev_shutdown)
next
  case (idle rs)
  then show ?thesis by (simp add: same_ids_keeps keeps.ev_idle)
next
  case (serve_ends g)
  then show ?thesis by (simp add: same_ids_keeps keeps.ev_serve_end)
qed (simp_all add: result_conn same_ids_keeps keeps.ev_resume keeps.ev_refl)

lemma data_waits_resume:
  assumes "data_waits_ok y" "sys_ok y" "k < FRAME_WORKERS" "same_ids (sy_conn y) (sy_conn (worker_result k (resume w taken s) y))"
  shows "data_waits_ok (worker_result k (resume w taken s) y)"
proof (cases rule: worker_result_cases [of "resume w taken s" k y])
  case panic
  with assms(1) show ?thesis by (simp add: data_waits_ok_def)
next
  case (go err s')
  with data_waits_worker [OF assms, of At_Pop] show ?thesis by simp
next
  case (wait v s')
  then show ?thesis using resume_returns by blast
qed

lemma queues_ok_result: "queues_ok y \<Longrightarrow> queues_ok (worker_result k h y)"
  by (cases rule: worker_result_cases [of h k y]) (auto simp: queues_ok_def)

lemma queues_ok_pop:
  assumes "queues_ok y" "q_Pop (sy_queues y ! k) = Some (Some fr, q)" "k < FRAME_WORKERS"
  shows "queues_ok (y\<lparr>sy_queues := (sy_queues y)[k := q]\<rparr>) \<and> frame_in k fr"
  using assms q_Pop_set [OF assms(2)] by (auto simp: queues_ok_def nth_list_update)

lemma queues_ok_push:
  assumes "queues_ok y" "sy_phase y = Pushing k fr p" "q_Push fr p (sy_queues y ! k) = Some q"
  shows "queues_ok (y\<lparr>sy_queues := (sy_queues y)[k := q], sy_phase := Reading\<rparr>)"
proof -
  have "frame_in k (pf_frame x)" if "x \<in> set (pq_queue q)" for x
  proof -
    from that q_Push_set [OF assms(3)] have "pf_frame x \<in> insert fr (pf_frame ` set (pq_queue (sy_queues y ! k)))"
      by blast
    with assms(1,2) show ?thesis by (auto simp: queues_ok_def)
  qed
  with assms(1,2) show ?thesis by (auto simp: queues_ok_def nth_list_update)
qed

lemma queues_ok_conn:
  assumes "queues_ok y"
  shows "queues_ok (y\<lparr>sy_conn := s\<rparr>)" "queues_ok (y\<lparr>sy_conn := s, sy_phase := Closing g\<rparr>)"
    "queues_ok (y\<lparr>sy_conn := s, sy_phase := Served\<rparr>)"
  using assms by (simp_all add: queues_ok_def)

lemma routed_ok_step:
  assumes "routed_ok y" "serve_step lib y es y'"
  shows "routed_ok y'"
proof -
  have ok: "sys_ok y" and q: "queues_ok y" and w: "data_waits_ok y" using assms(1) by (auto simp: routed_ok_def)
  have rr: "sy_roundRobin y < FRAME_WORKERS" using q by (simp add: queues_ok_def)
  have ids: "same_ids (sy_conn y) (sy_conn y')" by (rule step_same_ids [OF assms(2)])
  note conn = data_waits_conn [OF w ok ids] and qo = queues_ok_def
  have "queues_ok y' \<and> data_waits_ok y'"
    using assms(2)
  proof cases
    case (read_frame fr i k p rr s)
    from conn route_in [OF read_frame(5)] rr q show ?thesis by (auto simp: read_frame(2) qo)
  next
    case (reject_frame fr i rr s)
    from conn route_Rejected [OF reject_frame(5)] q show ?thesis by (auto simp: reject_frame(2) qo)
  next
    case (push_frame k fr p q1)
    from queues_ok_push [OF q push_frame(3,4)] conn show ?thesis by (simp add: push_frame(2))
  next
    case (drain_queue k)
    with q conn show ?thesis by (auto simp: qo nth_list_update q_Drain_def)
  next
    case (pop_frame k fr q1)
    let ?y = "y\<lparr>sy_queues := (sy_queues y)[k := q1]\<rparr>" and ?h = "handleFrame lib fr (sy_conn y)"
    from queues_ok_pop [OF q pop_frame(5,3)] have p: "queues_ok ?y" "frame_in k fr" by auto
    have y': "y' = worker_result k ?h ?y" using pop_frame(2) .
    have "data_waits_ok y'"
    proof (cases rule: worker_result_cases [of ?h k ?y])
      case panic
      with w y' show ?thesis by (simp add: data_waits_ok_def)
    next
      case (go err s)
      then show ?thesis using y' by (intro data_waits_worker [OF w ok pop_frame(3) ids, of At_Pop]) simp_all
    next
      case (wait v s)
      have "partition_of (sm_streamId (stream_at s r)) = k" if "v = Wait_Data r d fin" for r d fin
      proof -
        from ok have "conn_ok (sy_conn y)" by (simp add: sys_ok_def)
        from handled_data_wait [OF this _ p(2), of lib r d fin s] wait(1) that show ?thesis by auto
      qed
      with wait y' show ?thesis by (intro data_waits_worker [OF w ok pop_frame(3) ids, of "Waiting v"]) simp_all
    qed
    with queues_ok_result [OF p(1)] show ?thesis by (simp add: pop_frame(2))
  next
    case (worker_exits k q1)
    from data_waits_worker [OF w ok worker_exits(3) ids, of Exited] q show ?thesis by (auto simp: worker_exits(2) qo)
  next
    case (data_read k r d fin n bs s)
    from data_waits_resume [OF w ok data_read(3)] ids queues_ok_result [OF q] show ?thesis by (simp add: data_read(2))
  qed (use ids conn in \<open>auto simp: queues_ok_result [OF q] queues_ok_conn [OF q] intro: data_waits_resume [OF w ok]\<close>)
  with sys_ok_step [OF ok assms(2)] show ?thesis by (simp add: routed_ok_def)
qed

lemma routed_ok_start: "serve_start lib y \<Longrightarrow> routed_ok y"
proof -
  assume "serve_start lib y"
  moreover from this have "queues_ok y" "data_waits_ok y"
    by (auto simp: serve_start_def queues_ok_def data_waits_ok_def NewPriorityFrameQueue_def heap_Init_def FRAME_WORKERS_def)
  ultimately show ?thesis using sys_ok_start by (auto simp: routed_ok_def)
qed

end
