(* ===== verification/Stream_Data.thy ===== *)
theory Stream_Data
  imports Serve_Data Serve_Example
begin

text \<open>
  What the reader of a stream gets: an invariant that ties the events of a run to its state, and
  the delivery properties that follow.
\<close>

section \<open>The events of one stream\<close>

definition accepted_of :: "event list \<Rightarrow> nat \<Rightarrow> byte list list" where
  "accepted_of tr r = concat (map (\<lambda>e. case e of Accepted r' d \<Rightarrow> if r' = r then [d] else [] | _ \<Rightarrow> []) tr)"

definition taken_of :: "event list \<Rightarrow> nat \<Rightarrow> byte list list" where
  "taken_of tr r = concat (map (\<lambda>e. case e of Taken r' d \<Rightarrow> if r' = r then [d] else [] | _ \<Rightarrow> []) tr)"

definition dropped_of :: "event list \<Rightarrow> nat \<Rightarrow> byte list list" where
  "dropped_of tr r = concat (map (\<lambda>e. case e of Dropped r' d \<Rightarrow> if r' = r then [d] else [] | _ \<Rightarrow> []) tr)"

text \<open>Data that has left the worker, either way.\<close>

definition left_of :: "event list \<Rightarrow> nat \<Rightarrow> byte list list" where
  "left_of tr r = concat (map (\<lambda>e. case e of Taken r' d \<Rightarrow> if r' = r then [d] else []
     | Dropped r' d \<Rightarrow> if r' = r then [d] else [] | _ \<Rightarrow> []) tr)"

definition out_of :: "event list \<Rightarrow> nat \<Rightarrow> byte list" where
  "out_of tr r = concat (map (\<lambda>e. case e of Out r' bs \<Rightarrow> if r' = r then bs else [] | _ \<Rightarrow> []) tr)"

lemmas event_defs = accepted_of_def taken_of_def dropped_of_def left_of_def out_of_def

lemma event_append [simp]:
  "accepted_of (a @ b) r = accepted_of a r @ accepted_of b r" "taken_of (a @ b) r = taken_of a r @ taken_of b r"
  "dropped_of (a @ b) r = dropped_of a r @ dropped_of b r" "left_of (a @ b) r = left_of a r @ left_of b r"
  "out_of (a @ b) r = out_of a r @ out_of b r"
  by (simp_all add: event_defs)

lemma event_Nil [simp]: "accepted_of [] r = []" "taken_of [] r = []" "dropped_of [] r = []" "left_of [] r = []"
  "out_of [] r = []"
  by (simp_all add: event_defs)

text \<open>The bytes in the stream's buffer, and the data its worker holds out to readers.\<close>

definition unread_of :: "('c, 'd) connection \<Rightarrow> nat \<Rightarrow> byte list" where
  "unread_of s r = (case sm_unread (stream_at s r) of None \<Rightarrow> [] | Some u \<Rightarrow> u)"

definition held_by :: "worker_pc \<Rightarrow> nat \<Rightarrow> byte list list" where
  "held_by pc r = (case pc of Waiting (Wait_Data r' d fin) \<Rightarrow> if r' = r then [d] else [] | _ \<Rightarrow> [])"

definition pending_of :: "('c, 'd) system \<Rightarrow> nat \<Rightarrow> byte list list" where
  "pending_of y r = held_by (sy_workers y ! partition_of (sm_streamId (stream_at (sy_conn y) r))) r"

definition no_events :: "event list \<Rightarrow> nat \<Rightarrow> bool" where
  "no_events tr r = (accepted_of tr r = [] \<and> taken_of tr r = [] \<and> dropped_of tr r = [] \<and>
     left_of tr r = [] \<and> out_of tr r = [])"

definition data_ok :: "event list \<Rightarrow> ('c, 'd) system \<Rightarrow> bool" where
  "data_ok tr y = (\<forall>r.
     (length (cn_store (sy_conn y)) \<le> r \<longrightarrow> no_events tr r) \<and>
     (r < length (cn_store (sy_conn y)) \<longrightarrow>
        out_of tr r @ unread_of (sy_conn y) r = concat (taken_of tr r) \<and>
        accepted_of tr r = left_of tr r @ pending_of y r \<and>
        (\<not> sm_closeClosed (stream_at (sy_conn y) r) \<longrightarrow> dropped_of tr r = [])))"

text \<open>What a step owes a stream.\<close>

definition step_data :: "event list \<Rightarrow> ('c, 'd) system \<Rightarrow> ('c, 'd) system \<Rightarrow> nat \<Rightarrow> bool" where
  "step_data es y y' r = (
     out_of es r @ unread_of (sy_conn y') r = unread_of (sy_conn y) r @ concat (taken_of es r) \<and>
     pending_of y r @ accepted_of es r = left_of es r @ pending_of y' r \<and>
     (\<not> sm_closeClosed (stream_at (sy_conn y') r) \<longrightarrow>
        dropped_of es r = [] \<and> \<not> sm_closeClosed (stream_at (sy_conn y) r)))"

lemma data_ok_step:
  assumes "data_ok tr y" "length (cn_store (sy_conn y)) \<le> length (cn_store (sy_conn y'))"
    "\<And>r. r < length (cn_store (sy_conn y)) \<Longrightarrow> step_data es y y' r"
    "\<And>r. length (cn_store (sy_conn y)) \<le> r \<Longrightarrow> no_events es r"
    "\<And>r. length (cn_store (sy_conn y)) \<le> r \<Longrightarrow> r < length (cn_store (sy_conn y')) \<Longrightarrow>
       unread_of (sy_conn y') r = [] \<and> pending_of y' r = []"
  shows "data_ok (tr @ es) y'"
  unfolding data_ok_def
proof (intro allI conjI)
  fix r
  show "length (cn_store (sy_conn y')) \<le> r \<longrightarrow> no_events (tr @ es) r"
    using assms(1,2) assms(4) [of r] by (auto simp: data_ok_def no_events_def)
  show "r < length (cn_store (sy_conn y')) \<longrightarrow>
        out_of (tr @ es) r @ unread_of (sy_conn y') r = concat (taken_of (tr @ es) r) \<and>
        accepted_of (tr @ es) r = left_of (tr @ es) r @ pending_of y' r \<and>
        (\<not> sm_closeClosed (stream_at (sy_conn y') r) \<longrightarrow> dropped_of (tr @ es) r = [])"
  proof
    assume r: "r < length (cn_store (sy_conn y'))"
    show "out_of (tr @ es) r @ unread_of (sy_conn y') r = concat (taken_of (tr @ es) r) \<and>
        accepted_of (tr @ es) r = left_of (tr @ es) r @ pending_of y' r \<and>
        (\<not> sm_closeClosed (stream_at (sy_conn y') r) \<longrightarrow> dropped_of (tr @ es) r = [])"
    proof (cases "r < length (cn_store (sy_conn y))")
      case True
      with assms(1) have o: "out_of tr r @ unread_of (sy_conn y) r = concat (taken_of tr r)"
        and a: "accepted_of tr r = left_of tr r @ pending_of y r"
        and d: "\<not> sm_closeClosed (stream_at (sy_conn y) r) \<longrightarrow> dropped_of tr r = []"
        by (auto simp: data_ok_def)
      from assms(3) [OF True]
      have s: "out_of es r @ unread_of (sy_conn y') r = unread_of (sy_conn y) r @ concat (taken_of es r)"
        "pending_of y r @ accepted_of es r = left_of es r @ pending_of y' r"
        "\<not> sm_closeClosed (stream_at (sy_conn y') r) \<longrightarrow>
           dropped_of es r = [] \<and> \<not> sm_closeClosed (stream_at (sy_conn y) r)"
        by (auto simp: step_data_def)
      have "out_of (tr @ es) r @ unread_of (sy_conn y') r = concat (taken_of (tr @ es) r)"
        using o s(1) by (simp flip: append_assoc) (simp add: append_assoc s(1))
      moreover have "accepted_of (tr @ es) r = left_of (tr @ es) r @ pending_of y' r"
        using a s(2) by simp
      ultimately show ?thesis using d s(3) by simp
    next
      case False
      with assms(1) assms(4,5) [of r] r show ?thesis by (auto simp: data_ok_def no_events_def)
    qed
  qed
qed

section \<open>The steps\<close>

text \<open>A step that leaves the unread data alone and shows no events.\<close>

lemma keeps_data:
  assumes "keeps s s'"
  shows "length (cn_store s) \<le> length (cn_store s')"
    "r < length (cn_store s) \<Longrightarrow> unread_of s' r = unread_of s r \<and> sm_streamId (stream_at s' r) = sm_streamId (stream_at s r) \<and>
       (sm_closeClosed (stream_at s r) \<longrightarrow> sm_closeClosed (stream_at s' r))"
    "length (cn_store s) \<le> r \<Longrightarrow> r < length (cn_store s') \<Longrightarrow> unread_of s' r = []"
  using assms by (auto simp: evolves_def same_data_def unread_of_def)

lemma no_events_Nil [simp]: "no_events [] r"
  by (simp add: no_events_def)

lemma data_ok_unseen: "data_ok tr y \<Longrightarrow> data_ok (tr @ [Popped k fr]) y" "data_ok tr y \<Longrightarrow> data_ok (tr @ [Queued k fr p]) y"
  by (simp_all add: data_ok_def no_events_def event_defs)

lemma pending_new:
  assumes "routed_ok y" "length (cn_store (sy_conn y)) \<le> r"
  shows "held_by (sy_workers y ! partition_of sid) r = []"
  using assms partition_of_less [of sid]
  by (auto simp: routed_ok_def sys_ok_def wait_ok_def held_by_def split: worker_pc.split wait.split)

lemma data_ok_keeps:
  assumes "data_ok tr y" "routed_ok y" "keeps (sy_conn y) (sy_conn y')"
    "\<And>k r. k < FRAME_WORKERS \<Longrightarrow> held_by (sy_workers y' ! k) r = held_by (sy_workers y ! k) r"
  shows "data_ok tr y'"
proof -
  have "data_ok (tr @ []) y'"
  proof (rule data_ok_step [OF assms(1)])
    fix r assume "r < length (cn_store (sy_conn y))"
    with keeps_data [OF assms(3)] assms(4) [OF partition_of_less] show "step_data [] y y' r"
      by (auto simp: step_data_def pending_of_def)
  next
    fix r assume r: "length (cn_store (sy_conn y)) \<le> r" "r < length (cn_store (sy_conn y'))"
    show "unread_of (sy_conn y') r = [] \<and> pending_of y' r = []"
      using keeps_data(3) [OF assms(3) r] pending_new [OF assms(2) r(1)] assms(4) [OF partition_of_less]
      by (simp add: pending_of_def)
  qed (use keeps_data(1) [OF assms(3)] in simp_all)
  then show ?thesis by simp
qed

text \<open>What is held out after a handler: nothing, or what it stopped to hold out.\<close>

lemma held_result:
  assumes "k < FRAME_WORKERS" "length (sy_workers y) = FRAME_WORKERS"
  shows "held_by (sy_workers (worker_result k h y) ! j) r =
    (if j = k \<and> h \<noteq> Panicked then (case h of Suspended w s \<Rightarrow> held_by (Waiting w) r | _ \<Rightarrow> [])
     else held_by (sy_workers y ! j) r)"
  using assms by (cases h) (auto simp: worker_result_def nth_list_update held_by_def)

lemma held_idle [simp]: "held_by At_Pop r = []" "held_by (Waiting (Wait_Handler v)) r = []"
  "held_by (Waiting (Wait_Start v)) r = []" "held_by (Waiting (Wait_Header v hs fin)) r = []"
  by (simp_all add: held_by_def)

lemma held_data [simp]: "held_by (Waiting (Wait_Data v d fin)) r = (if v = r then [d] else [])"
  by (simp add: held_by_def)

lemma routed_workers: "routed_ok y \<Longrightarrow> length (sy_workers y) = FRAME_WORKERS"
  by (simp add: routed_ok_def sys_ok_def)

text \<open>A worker that does not hold data goes on to something that does not hold data.\<close>

lemma data_ok_worker:
  assumes "data_ok tr y" "routed_ok y" "k < FRAME_WORKERS" "\<And>r. held_by (sy_workers y ! k) r = []"
    "keeps (sy_conn y) (handled_conn (sy_conn y) h)" "\<And>w s r. h = Suspended w s \<Longrightarrow> held_by (Waiting w) r = []"
  shows "data_ok tr (worker_result k h y)"
proof (rule data_ok_keeps [OF assms(1,2)])
  show "keeps (sy_conn y) (sy_conn (worker_result k h y))"
    using assms(5) by (cases h) (auto simp: worker_result_def)
  show "held_by (sy_workers (worker_result k h y) ! j) r = held_by (sy_workers y ! j) r" if "j < FRAME_WORKERS" for j r
    using assms(4,6) by (auto simp: held_result [OF assms(3) routed_workers [OF assms(2)]] split: handled.split)
qed

lemma data_ok_resume:
  assumes "data_ok tr y" "routed_ok y" "k < FRAME_WORKERS" "sy_workers y ! k = Waiting w" "\<And>r. held_by (Waiting w) r = []"
  shows "data_ok tr (worker_result k (resume w taken (sy_conn y)) y)"
  by (rule data_ok_worker [OF assms(1-3)]) (use assms(4,5) in \<open>auto simp: keeps.ev_resume dest: resume_returns\<close>)

text \<open>A worker accepts data for a stream of its partition.\<close>

lemma data_ok_accept:
  assumes "data_ok tr y" "routed_ok y" "k < FRAME_WORKERS" "sy_workers y ! k = At_Pop"
    "frame_in k fr" "q_Pop (sy_queues y ! k) = Some (Some fr, q)"
  shows "data_ok (tr @ Popped k fr # accept_events (handleFrame lib fr (sy_conn y)))
    (worker_result k (handleFrame lib fr (sy_conn y)) (y\<lparr>sy_queues := (sy_queues y)[k := q]\<rparr>))"
proof -
  let ?h = "handleFrame lib fr (sy_conn y)" and ?y = "y\<lparr>sy_queues := (sy_queues y)[k := q]\<rparr>"
  have y: "data_ok tr ?y" "sy_conn ?y = sy_conn y" "sy_workers ?y = sy_workers y"
    using assms(1) by (auto simp: data_ok_def pending_of_def)
  have rt: "routed_ok ?y" using assms(2,3) queues_ok_pop [of y k fr q] assms(6)
    by (auto simp: routed_ok_def data_waits_ok_def)
  show ?thesis
  proof (cases "\<exists>r d fin s. ?h = Suspended (Wait_Data r d fin) s")
    case False
    have "data_ok tr (worker_result k ?h ?y)"
    proof (rule data_ok_worker [OF y(1) rt assms(3)])
      show "keeps (sy_conn ?y) (handled_conn (sy_conn ?y) ?h)" by (simp add: keeps.ev_handle)
      show "held_by (Waiting w) r = []" if "?h = Suspended w s" for w s r
        using that False by (cases w) auto
    qed (simp add: assms(4))
    from data_ok_unseen [OF this] False show ?thesis by (auto simp: accept_events_def split: handled.split wait.split)
  next
    case True
    then obtain r d fin s where h: "?h = Suspended (Wait_Data r d fin) s" by blast
    from assms(2) have c: "conn_ok (sy_conn y)" by (simp add: routed_ok_def sys_ok_def)
    from handled_data_wait [OF c h assms(5)] have p: "partition_of (sm_streamId (stream_at (sy_conn y) r)) = k"
      and s: "s = sy_conn y" by auto
    have r: "r < length (cn_store (sy_conn y))"
      using sys_ok_step [OF _ pop_frame [OF assms(3,4,6), of lib]] assms(2,3) routed_workers [OF assms(2)]
      by (auto simp: h s routed_ok_def sys_ok_def wait_ok_def worker_result_def)
    have "data_ok (tr @ [Popped k fr, Accepted r d]) (worker_result k ?h ?y)"
    proof (rule data_ok_step [OF y(1)])
      fix r'
      show "step_data [Popped k fr, Accepted r d] ?y (worker_result k ?h ?y) r'"
        using p assms(4) by (auto simp: step_data_def pending_of_def held_result [OF assms(3)] routed_workers [OF assms(2)]
          h s event_defs result_conn)
    qed (use r in \<open>auto simp: h s worker_result_def no_events_def event_defs\<close>)
    then show ?thesis by (simp add: h accept_events_def)
  qed
qed

text \<open>A \<open>Read\<close> gives bytes from the front of the unread data, or of the data taken.\<close>

lemma Read_data:
  assumes "s_Read n x r s = (Inr bs, s')" "r < length (cn_store s)"
  shows "length (cn_store s') = length (cn_store s)" "v \<noteq> r \<Longrightarrow> stream_at s' v = stream_at s v"
    "sm_streamId (stream_at s' r) = sm_streamId (stream_at s r)"
    "sm_closeClosed (stream_at s' r) = sm_closeClosed (stream_at s r)"
    "bs @ unread_of s' r = unread_of s r @ (if sm_unread (stream_at s r) = None then the x else [])"
  using assms by (auto simp: s_Read_def copy_unread_def Let_def stream_at_upd unread_of_def
      split: option.splits if_splits)

lemma pending_at:
  assumes "routed_ok y" "k < FRAME_WORKERS" "sy_workers y ! k = Waiting (Wait_Data r d fin)"
  shows "r < length (cn_store (sy_conn y))" "partition_of (sm_streamId (stream_at (sy_conn y) r)) = k"
  using assms by (auto simp: routed_ok_def sys_ok_def wait_ok_def data_waits_ok_def)

text \<open>The data a worker holds out leaves it.\<close>

lemma data_ok_leave:
  assumes "data_ok tr y" "routed_ok y" "k < FRAME_WORKERS" "sy_workers y ! k = Waiting (Wait_Data r d fin)"
    "length (cn_store s) = length (cn_store (sy_conn y))" "\<And>v. v \<noteq> r \<Longrightarrow> stream_at s v = stream_at (sy_conn y) v"
    "sm_streamId (stream_at s r) = sm_streamId (stream_at (sy_conn y) r)"
    "sm_closeClosed (stream_at s r) = sm_closeClosed (stream_at (sy_conn y) r)"
    "out_of es r @ unread_of s r = unread_of (sy_conn y) r @ concat (taken_of es r)"
    "left_of es r = [d]" "accepted_of es r = []" "dropped_of es r \<noteq> [] \<Longrightarrow> sm_closeClosed (stream_at s r)"
    "\<And>v. v \<noteq> r \<Longrightarrow> no_events es v"
  shows "data_ok (tr @ es) (worker_result k (resume (Wait_Data r d fin) taken s) y)"
proof -
  let ?s' = "data_fin r fin s"
  have y': "worker_result k (resume (Wait_Data r d fin) taken s) y = y\<lparr>sy_conn := ?s', sy_workers := (sy_workers y)[k := At_Pop]\<rparr>"
    by (simp add: worker_result_def resume.simps)
  have ks: "keeps s ?s'" by (rule keeps.ev_data_fin)
  have ls: "length (cn_store ?s') = length (cn_store s)"
    by (simp add: data_fin_def remoteStreamFinish_def Let_def closeRemoteChannels_eq removeStream_def)
  note r = pending_at [OF assms(2-4)] and len = routed_workers [OF assms(2)]
  show ?thesis
    unfolding y'
  proof (rule data_ok_step [OF assms(1)])
    fix v assume v: "v < length (cn_store (sy_conn y))"
    then have kv: "unread_of ?s' v = unread_of s v" "sm_streamId (stream_at ?s' v) = sm_streamId (stream_at s v)"
      "sm_closeClosed (stream_at s v) \<longrightarrow> sm_closeClosed (stream_at ?s' v)"
      using keeps_data(2) [OF ks, of v] assms(5) by auto
    show "step_data es y (y\<lparr>sy_conn := ?s', sy_workers := (sy_workers y)[k := At_Pop]\<rparr>) v"
    proof (cases "v = r")
      case True
      with kv assms(3,4,7-12) r(2) len show ?thesis
        by (auto simp: step_data_def pending_of_def)
    next
      case False
      then have "held_by (sy_workers y ! k) v = []" by (simp add: assms(4))
      with False kv assms(3,6) assms(13) [OF False] len show ?thesis
        by (cases "partition_of (sm_streamId (stream_at (sy_conn y) v)) = k")
          (auto simp: step_data_def pending_of_def no_events_def unread_of_def)
    qed
  qed (use ls assms(5,13) r(1) in auto)
qed

lemma data_ok_data_read:
  assumes "data_ok tr y" "routed_ok y" "k < FRAME_WORKERS" "sy_workers y ! k = Waiting (Wait_Data r d fin)"
    "sm_unread (stream_at (sy_conn y) r) = None" "s_Read n (Some d) r (sy_conn y) = (Inr bs, s)"
  shows "data_ok (tr @ [Taken r d, Out r bs]) (worker_result k (resume (Wait_Data r d fin) True s) y)"
  by (rule data_ok_leave [OF assms(1-4)])
    (use Read_data [OF assms(6) pending_at(1) [OF assms(2-4)]] assms(5) in \<open>auto simp: event_defs no_events_def\<close>)

lemma data_ok_data_dropped:
  assumes "data_ok tr y" "routed_ok y" "k < FRAME_WORKERS" "sy_workers y ! k = Waiting (Wait_Data r d fin)"
    "sm_closeClosed (stream_at (sy_conn y) r)"
  shows "data_ok (tr @ [Dropped r d]) (worker_result k (resume (Wait_Data r d fin) False (sy_conn y)) y)"
  by (rule data_ok_leave [OF assms(1-4)]) (use assms(5) in \<open>auto simp: event_defs no_events_def\<close>)

lemma data_ok_unread_read:
  assumes "data_ok tr y" "r < length (cn_store (sy_conn y))" "sm_unread (stream_at (sy_conn y) r) = Some u"
    "s_Read n None r (sy_conn y) = (Inr bs, s)"
  shows "data_ok (tr @ [Out r bs]) (y\<lparr>sy_conn := s\<rparr>)"
proof (rule data_ok_step [OF assms(1)])
  fix v assume "v < length (cn_store (sy_conn y))"
  show "step_data [Out r bs] y (y\<lparr>sy_conn := s\<rparr>) v"
    using Read_data [OF assms(4,2)] assms(3)
    by (cases "v = r") (auto simp: step_data_def pending_of_def event_defs unread_of_def)
qed (use Read_data [OF assms(4,2)] assms(2) in \<open>auto simp: event_defs no_events_def\<close>)

section \<open>Every step\<close>

lemma data_ok_serve_step:
  assumes "routed_ok y" "data_ok tr y" "serve_step lib y es y'"
  shows "data_ok (tr @ es) y'"
proof -
  have conn: "data_ok tr y''" if "keeps (sy_conn y) (sy_conn y'')" "sy_workers y'' = sy_workers y" for y''
    by (rule data_ok_keeps [OF assms(2,1)]) (simp_all add: that)
  show ?thesis
    using assms(3)
  proof cases
    case (read_frame fr i k p rr s)
    with keeps.ev_framer [OF keeps.ev_route [OF read_frame(5)]] show ?thesis by (auto intro: conn)
  next
    case (reject_frame fr i rr s)
    with keeps.ev_framer [OF keeps.ev_route [OF reject_frame(5)]] show ?thesis by (auto intro: conn)
  next
    case (read_goaway fr i g rr s)
    with keeps.ev_closeChan [OF keeps.ev_framer [OF keeps.ev_route [OF read_goaway(5)]]] show ?thesis by (auto intro: conn)
  next
    case (read_error err i)
    have "keeps (sy_conn y) (close_closeChan (read_failed err ((sy_conn y)\<lparr>cn_framer := i\<rparr>)))"
      by (intro keeps.ev_closeChan keeps.ev_framer [OF keeps.ev_read_failed])
    with read_error show ?thesis by (auto intro: conn)
  next
    case (pop_frame k fr q)
    from queues_ok_pop [OF _ pop_frame(5,3)] assms(1) have "frame_in k fr" by (simp add: routed_ok_def)
    with pop_frame data_ok_accept [OF assms(2,1)] show ?thesis by simp
  next
    case (worker_exits k q)
    have "data_ok tr y'"
    proof (rule data_ok_keeps [OF assms(2,1)])
      show "held_by (sy_workers y' ! j) r = held_by (sy_workers y ! j) r" if "j < FRAME_WORKERS" for j r
        using worker_exits that routed_workers [OF assms(1)] by (cases "j = k") (auto simp: held_by_def)
    qed (simp add: worker_exits(2) keeps.ev_refl)
    with worker_exits show ?thesis by simp
  next
    case (data_read k r d fin n bs s)
    with data_ok_data_read [OF assms(2,1)] show ?thesis by simp
  next
    case (data_dropped k r d fin)
    with data_ok_data_dropped [OF assms(2,1)] show ?thesis by simp
  next
    case (unread_read r u n bs s)
    with data_ok_unread_read [OF assms(2)] show ?thesis by simp
  next
    case (api c s)
    with keeps.ev_api [OF api(4)] show ?thesis by (auto intro: conn)
  next
    case (task i)
    have "data_ok tr y'" by (rule conn) (simp_all add: task keeps.ev_task)
    with task show ?thesis by simp
  next
    case (monitor s)
    with keeps.ev_monitor [OF monitor(3)] show ?thesis by (auto intro: conn)
  next
    case (shutting_down s err)
    with keeps.ev_shutdown [OF shutting_down(3)] show ?thesis by (auto intro: conn)
  next
    case (idle rs)
    have "data_ok tr y'" by (rule conn) (simp_all add: idle keeps.ev_idle)
    with idle show ?thesis by simp
  next
    case (serve_ends g)
    have "data_ok tr y'" by (rule conn) (simp_all add: serve_ends keeps.ev_serve_end)
    with serve_ends show ?thesis by simp
  next
    case (push_frame k fr p q)
    have "data_ok tr y'" by (rule conn) (simp_all add: push_frame keeps.ev_refl)
    from data_ok_unseen(2) [OF this] push_frame show ?thesis by simp
  next
    case (drain_queue k)
    have "data_ok tr y'" by (rule conn) (simp_all add: drain_queue keeps.ev_refl)
    with drain_queue show ?thesis by simp
  qed (auto intro: data_ok_resume [OF assms(2,1)])
qed

lemma data_ok_start: "serve_start lib y \<Longrightarrow> data_ok [] y"
  by (auto simp: serve_start_def data_ok_def new_conn)

interpretation serve_data: trace_system "serve_start lib" "serve_step lib" routed_ok data_ok for lib
  by unfold_locales (auto intro: routed_ok_start routed_ok_step data_ok_start data_ok_serve_step)

section \<open>Delivery\<close>

text \<open>
  C10: What the readers of a stream have got.  In every run of the system, whatever the
  interleaving: the bytes that all the \<open>Read\<close> calls of a stream have returned, followed by what
  is left in its \<open>unread\<close> buffer, are the data of the frames the readers took from the worker, in
  the order they were taken; however small the buffers of the calls are, no byte is lost,
  repeated or moved.
\<close>

theorem reads_give_data_taken:
  assumes "serves lib tr y" "r < length (cn_store (sy_conn y))"
  shows "out_of tr r @ unread_of (sy_conn y) r = concat (taken_of tr r)"
  using serve_data.run_tinv [OF assms(1)] assms(2) by (simp add: data_ok_def)

text \<open>The state the example run of theory \<open>Serve_Example\<close> ends in.\<close>

definition ex_end :: "byte list \<Rightarrow> (unit, unit) system" where
  "ex_end out = ex_at (ex_open out (Some ()) [0] True (Some [7]) 0) Reading (ex_q [] 3) (Waiting (Wait_Data 0 [6, 7] False))"

lemma ex_end_sel: "length (cn_store (sy_conn (ex_end out))) = 1" "unread_of (sy_conn (ex_end out)) 0 = [7]"
  "\<not> sm_closeClosed (stream_at (sy_conn (ex_end out)) 0)" "pending_of (ex_end out) 0 = [[6, 7]]"
  "sm_streamId (stream_at (sy_conn (ex_end out)) 0) = 1"
  by (simp_all add: ex_end_def ex_at_def ex_open_def unread_of_def stream_at_def pending_of_def partition_1)

theorem reads_give_data_taken_witness:
  "\<exists>y. serves id_lib ex_trace y \<and> out_of ex_trace 0 = [5] \<and> unread_of (sy_conn y) 0 = [7] \<and>
     out_of ex_trace 0 @ unread_of (sy_conn y) 0 = concat (taken_of ex_trace 0)"
proof -
  obtain out where r: "serves id_lib ex_trace (ex_end out)" using ex_run by (auto simp: ex_end_def)
  have "out_of ex_trace 0 = [5]" by (simp add: event_defs ex_trace_def)
  with reads_give_data_taken [OF r, of 0] r show ?thesis
    by (intro exI [of _ "ex_end out"]) (simp add: ex_end_sel)
qed

lemma left_taken: "dropped_of tr r = [] \<Longrightarrow> left_of tr r = taken_of tr r"
  by (induction tr) (auto simp: event_defs split: event.splits if_splits)

text \<open>
  C2: A stream that has not been closed loses nothing: as long as its close channel is open, what
  its readers have got, what is in its \<open>unread\<close> buffer and what its worker holds out to them
  is, in this order, all the data its worker has accepted for it.
\<close>

theorem open_stream_loses_nothing:
  assumes "serves lib tr y" "r < length (cn_store (sy_conn y))" "\<not> sm_closeClosed (stream_at (sy_conn y) r)"
  shows "out_of tr r @ unread_of (sy_conn y) r @ concat (pending_of y r) = concat (accepted_of tr r)"
proof -
  from serve_data.run_tinv [OF assms(1)] assms(2,3)
  have "out_of tr r @ unread_of (sy_conn y) r = concat (taken_of tr r)"
    "accepted_of tr r = left_of tr r @ pending_of y r" "dropped_of tr r = []"
    by (auto simp: data_ok_def)
  with left_taken [of tr r] show ?thesis by (metis append_assoc concat_append)
qed

theorem open_stream_loses_nothing_witness:
  "\<exists>y. serves id_lib ex_trace y \<and> accepted_of ex_trace 0 = [[5, 7], [6, 7]] \<and>
     out_of ex_trace 0 @ unread_of (sy_conn y) 0 @ concat (pending_of y 0) = concat (accepted_of ex_trace 0)"
proof -
  obtain out where r: "serves id_lib ex_trace (ex_end out)" using ex_run by (auto simp: ex_end_def)
  have "accepted_of ex_trace 0 = [[5, 7], [6, 7]]" by (simp add: event_defs ex_trace_def)
  with open_stream_loses_nothing [OF r, of 0] r show ?thesis
    by (intro exI [of _ "ex_end out"]) (simp add: ex_end_sel)
qed

end
