(* ===== verification/Serve_Order.thy ===== *)
theory Serve_Order
  imports Stream_Data Serve_Exec "HOL-Library.Sublist"
begin

text \<open>
  The order of a stream's frames, from the read loop through the queue to the readers: what a
  reader gets is the data of frames of its stream, in the order the read loop queued them, as
  long as the priority of the stream is not changed.
\<close>

text \<open>
  C11: The frames of a stream stay with one worker: in every state a running connection can
  reach, each frame in a worker's queue that belongs to a stream belongs to one of the worker's
  partition, which is the residue of the stream's id modulo the number of workers; and so does
  each frame the worker takes.
\<close>

theorem stream_frames_stay_with_worker:
  assumes "serves lib tr y" "k < FRAME_WORKERS"
  shows "(\<forall>p\<in>set (pq_queue (sy_queues y ! k)). frame_in k (pf_frame p)) \<and>
     (\<forall>fr q. q_Pop (sy_queues y ! k) = Some (Some fr, q) \<longrightarrow> frame_in k fr)"
  using serve_data.run_inv [OF assms(1)] assms(2) queues_ok_pop [OF _ _ assms(2), of y]
  by (auto simp: routed_ok_def queues_ok_def)

theorem stream_frames_stay_with_worker_witness:
  "\<exists>tr y p. serves id_lib tr y \<and> p \<in> set (pq_queue (sy_queues y ! 1)) \<and> frame_in 1 (pf_frame p)"
proof -
  obtain tr y where r: "serves id_lib tr y" "SynReply ex_reply \<in> pf_frame ` set (pq_queue (sy_queues y ! 1))"
    using ex_queued_run by blast
  then obtain p where "p \<in> set (pq_queue (sy_queues y ! 1))" "pf_frame p = SynReply ex_reply" by auto
  with stream_frames_stay_with_worker [OF r(1), of 1] r(1) show ?thesis by (auto simp: FRAME_WORKERS_def)
qed

section \<open>The calls on one queue\<close>

definition queued_of :: "event list \<Rightarrow> nat \<Rightarrow> (frame \<times> u8) list" where
  "queued_of tr k = concat (map (\<lambda>e. case e of Queued j fr p \<Rightarrow> if j = k then [(fr, p)] else [] | _ \<Rightarrow> []) tr)"

definition popped_of :: "event list \<Rightarrow> nat \<Rightarrow> frame list" where
  "popped_of tr k = concat (map (\<lambda>e. case e of Popped j fr \<Rightarrow> if j = k then [fr] else [] | _ \<Rightarrow> []) tr)"

lemma queue_events [simp]:
  "queued_of (a @ b) k = queued_of a k @ queued_of b k" "popped_of (a @ b) k = popped_of a k @ popped_of b k"
  "queued_of [] k = []" "popped_of [] k = []"
  by (simp_all add: queued_of_def popped_of_def)

definition pushes :: "q_op list \<Rightarrow> (frame \<times> u8) list" where
  "pushes cs = concat (map (\<lambda>c. case c of Push_op fr p \<Rightarrow> [(fr, p)] | _ \<Rightarrow> []) cs)"

text \<open>A queue of the system is what calls that did not wait have made of a new queue.\<close>

definition from_calls :: "priority_frame_queue \<Rightarrow> (frame \<times> u8) list \<Rightarrow> frame list \<Rightarrow> bool" where
  "from_calls q ins outs = (\<exists>cs xs. run_calls q_call cs (NewPriorityFrameQueue QUEUE_SIZE) = (xs, q) \<and>
     pushes cs = ins \<and> pushed cs xs = map fst ins \<and> popped xs = outs)"

definition order_ok :: "event list \<Rightarrow> ('c, 'd) system \<Rightarrow> bool" where
  "order_ok tr y = (\<forall>k<FRAME_WORKERS. from_calls (sy_queues y ! k) (queued_of tr k) (popped_of tr k))"

lemma run_calls_snoc:
  "run_calls call cs q = (xs, q1) \<Longrightarrow> call c q1 = (x, q2) \<Longrightarrow> run_calls call (cs @ [c]) q = (xs @ [x], q2)"
  by (induction cs arbitrary: q xs) (auto split: prod.splits)

lemma run_calls_len: "run_calls call cs q = (xs, q1) \<Longrightarrow> length xs = length cs"
  by (induction cs arbitrary: q xs) (auto split: prod.splits)

lemma pushed_snoc: "length cs = length xs \<Longrightarrow> pushed (cs @ [c]) (xs @ [x]) = pushed cs xs @ pushed [c] [x]"
  by (induction cs xs rule: pushed.induct) auto

lemma popped_snoc: "popped (xs @ [x]) = popped xs @ popped [x]"
  by (induction xs rule: popped.induct) auto

lemma from_calls_new: "from_calls (NewPriorityFrameQueue QUEUE_SIZE) [] []"
  unfolding from_calls_def by (intro exI [of _ "[]"]) (simp add: pushes_def)

lemma from_calls_snoc:
  assumes "from_calls q ins outs" "q_call c q = (x, q')"
    "pushed [c] [x] = map fst (pushes [c])"
  shows "from_calls q' (ins @ pushes [c]) (outs @ popped [x])"
proof -
  from assms(1) obtain cs xs where 1: "run_calls q_call cs (NewPriorityFrameQueue QUEUE_SIZE) = (xs, q)"
    "pushes cs = ins" "pushed cs xs = map fst ins" "popped xs = outs" by (auto simp: from_calls_def)
  have "pushed (cs @ [c]) (xs @ [x]) = map fst (ins @ pushes [c])"
    using 1(3) assms(3) by (simp add: pushed_snoc run_calls_len [OF 1(1)])
  moreover have "pushes (cs @ [c]) = ins @ pushes [c]" using 1(2) by (simp add: pushes_def)
  ultimately show ?thesis
    using run_calls_snoc [OF 1(1) assms(2)] popped_snoc [of xs x] 1(4) unfolding from_calls_def by metis
qed

lemma from_calls_push:
  "from_calls q ins outs \<Longrightarrow> q_Push fr p q = Some q' \<Longrightarrow> from_calls q' (ins @ [(fr, p)]) outs"
  using from_calls_snoc [of q ins outs "Push_op fr p" Done q'] by (simp add: q_call_def call_with_def pushes_def)

lemma from_calls_pop:
  "from_calls q ins outs \<Longrightarrow> q_Pop q = Some (Some fr, q') \<Longrightarrow> from_calls q' ins (outs @ [fr])"
  using from_calls_snoc [of q ins outs Pop_op "Got (Some fr)" q'] by (simp add: q_call_def call_with_def pushes_def)

lemma from_calls_drain: "from_calls q ins outs \<Longrightarrow> from_calls (q_Drain q) ins outs"
  using from_calls_snoc [of q ins outs Drain_op Done "q_Drain q"] by (simp add: q_call_def call_with_def pushes_def)

text \<open>Frames that were all queued with one priority leave in the order they came.\<close>

lemma pushes_ops: "filter is_Push cs = map (\<lambda>(fr, p). Push_op fr p) (pushes cs)"
  by (induction cs) (auto simp: pushes_def split: q_op.split)

lemma from_calls_order:
  assumes "from_calls q ins outs" "length ins < 2 ^ 64" "\<forall>(fr, p)\<in>set ins. P fr \<longrightarrow> p = p0"
  shows "filter P (map fst ins) = filter P outs @ filter P (map pf_frame (sort_key pf_insertId (pq_queue q)))"
proof -
  from assms(1) obtain cs xs where 1: "run_calls q_call cs (NewPriorityFrameQueue QUEUE_SIZE) = (xs, q)"
    "pushes cs = ins" "pushed cs xs = map fst ins" "popped xs = outs" by (auto simp: from_calls_def)
  have "length (filter is_Push cs) < 2 ^ 64" using 1(2) assms(2) by (simp add: pushes_ops)
  with run_refines [OF q_ok_new _ 1(1)] have r: "run_calls spec_call cs (spec_new QUEUE_SIZE) = (xs, q_abs q)"
    by (simp add: q_abs_new) (simp add: NewPriorityFrameQueue_def)
  have "Push_op fr p \<in> set cs \<Longrightarrow> (fr, p) \<in> set ins" for fr p
    using 1(2) by (auto simp: pushes_def)
  with assms(3) have "\<forall>fr p. Push_op fr p \<in> set cs \<longrightarrow> P fr \<longrightarrow> p = p0" by blast
  from spec_run_order [OF r _ this] 1(3,4) show ?thesis by (simp add: spec_new_def q_abs_def comp_def)
qed

section \<open>Every step\<close>

lemma worker_result_queues [simp]: "sy_queues (worker_result k h y) = sy_queues y"
  by (simp add: worker_result_def split: handled.split)

lemma order_ok_step:
  assumes "routed_ok y" "order_ok tr y" "serve_step lib y es y'"
  shows "order_ok (tr @ es) y'"
proof -
  have len: "length (sy_queues y) = FRAME_WORKERS" using assms(1) by (simp add: routed_ok_def queues_ok_def)
  have ev: "queued_of (accept_events h) k = [] \<and> popped_of (accept_events h) k = []" for h k
    by (auto simp: accept_events_def queued_of_def popped_of_def split: handled.split wait.split)
  show ?thesis
    using assms(3)
  proof cases
    case (push_frame k fr p q)
    with assms(1) have "k < FRAME_WORKERS" by (simp add: routed_ok_def queues_ok_def)
    with push_frame assms(2) len show ?thesis
      by (auto simp: order_ok_def nth_list_update queued_of_def popped_of_def intro: from_calls_push)
  next
    case (drain_queue k)
    with assms(2) len show ?thesis by (auto simp: order_ok_def nth_list_update intro: from_calls_drain)
  next
    case (pop_frame k fr q)
    have "popped_of es j = (if j = k then [fr] else [])" "queued_of es j = []" for j
      using ev by (auto simp: pop_frame(1) popped_of_def queued_of_def)
    with pop_frame assms(2) len show ?thesis
      by (auto simp: order_ok_def nth_list_update intro: from_calls_pop)
  qed (use assms(2) in \<open>auto simp: order_ok_def queued_of_def popped_of_def\<close>)
qed

lemma order_ok_start: "serve_start lib y \<Longrightarrow> order_ok [] y"
  by (auto simp: serve_start_def order_ok_def from_calls_new)

interpretation serve_order: trace_system "serve_start lib" "serve_step lib" routed_ok order_ok for lib
  by unfold_locales (auto intro: routed_ok_start routed_ok_step order_ok_start order_ok_step)

section \<open>What is accepted\<close>

text \<open>The data of the data frames for a stream id.\<close>

definition data_of :: "stream_id \<Rightarrow> frame list \<Rightarrow> byte list list" where
  "data_of sid frs = concat (map (\<lambda>fr. case fr of Data d \<Rightarrow> if df_StreamId d = sid then [df_Data d] else [] | _ \<Rightarrow> []) frs)"

definition accept_ok :: "event list \<Rightarrow> ('c, 'd) system \<Rightarrow> bool" where
  "accept_ok tr y = (\<forall>r.
     if r < length (cn_store (sy_conn y))
     then (let sid = sm_streamId (stream_at (sy_conn y) r) in
           subseq (accepted_of tr r) (data_of sid (popped_of tr (partition_of sid))))
     else accepted_of tr r = [])"

lemma accept_okD:
  assumes "accept_ok tr y" "r < length (cn_store (sy_conn y))" "sid = sm_streamId (stream_at (sy_conn y) r)"
  shows "subseq (accepted_of tr r) (data_of sid (popped_of tr (partition_of sid)))"
  using assms(1,2) unfolding accept_ok_def assms(3) by (simp add: Let_def split: if_split_asm)

lemma data_of_append [simp]: "data_of sid (a @ b) = data_of sid a @ data_of sid b" "data_of sid [] = []"
  by (simp_all add: data_of_def)

lemma accept_ok_step:
  assumes "accept_ok tr y" "same_ids (sy_conn y) (sy_conn y')"
    "\<And>r. accepted_of es r \<noteq> [] \<Longrightarrow> r < length (cn_store (sy_conn y)) \<and>
       (let sid = sm_streamId (stream_at (sy_conn y) r) in
        subseq (accepted_of es r) (data_of sid (popped_of es (partition_of sid))))"
  shows "accept_ok (tr @ es) y'"
  unfolding accept_ok_def
proof (intro allI)
  fix r
  let ?n = "length (cn_store (sy_conn y))" and ?n' = "length (cn_store (sy_conn y'))"
  have n: "?n \<le> ?n'" using assms(2) by (simp add: same_ids_def)
  show "if r < ?n' then (let sid = sm_streamId (stream_at (sy_conn y') r) in
        subseq (accepted_of (tr @ es) r) (data_of sid (popped_of (tr @ es) (partition_of sid))))
     else accepted_of (tr @ es) r = []"
  proof (cases "r < ?n")
    case True
    define sid where "sid = sm_streamId (stream_at (sy_conn y) r)"
    with True assms(2) have "sm_streamId (stream_at (sy_conn y') r) = sid" by (simp add: same_ids_def)
    moreover have "subseq (accepted_of tr r) (data_of sid (popped_of tr (partition_of sid)))"
      using assms(1) True sid_def by (rule accept_okD)
    moreover have "subseq (accepted_of es r) (data_of sid (popped_of es (partition_of sid)))"
      using assms(3) [of r] by (cases "accepted_of es r = []") (simp_all add: sid_def Let_def)
    ultimately show ?thesis using True n by (simp add: Let_def list_emb_append_mono)
  next
    case False
    then have "accepted_of tr r = []" using assms(1) by (auto simp: accept_ok_def)
    moreover have "accepted_of es r = []" using assms(3) [of r] False by blast
    ultimately show ?thesis by (simp add: Let_def)
  qed
qed

lemma accepted_frame:
  assumes "conn_ok s" "handleFrame lib fr s = Suspended (Wait_Data r d fin) s'"
  shows "r < length (cn_store s) \<and> data_of (sm_streamId (stream_at s r)) [fr] = [d]"
  using assms by (cases fr) (auto simp: handleStreamFrame_def handleReplyFrame_def handleResetFrame_def
      handleHeaderFrame_def handleDataFrame_def Let_def returns_def conn_ok_def wf_map_def getStream_def data_of_def
      split: option.splits if_splits prod.splits)

lemma accept_ok_serve_step:
  assumes "routed_ok y" "accept_ok tr y" "serve_step lib y es y'"
  shows "accept_ok (tr @ es) y'"
proof (rule accept_ok_step [OF assms(2) step_same_ids [OF assms(3)]])
  fix r assume r: "accepted_of es r \<noteq> []"
  from assms(3) show "r < length (cn_store (sy_conn y)) \<and> (let sid = sm_streamId (stream_at (sy_conn y) r) in
        subseq (accepted_of es r) (data_of sid (popped_of es (partition_of sid))))"
  proof cases
    case (pop_frame k fr q)
    let ?h = "handleFrame lib fr (sy_conn y)"
    from r pop_frame obtain d fin s where h: "?h = Suspended (Wait_Data r d fin) s"
      by (auto simp: accept_events_def event_defs split: handled.splits wait.splits if_splits)
    from assms(1) have c: "conn_ok (sy_conn y)" by (simp add: routed_ok_def sys_ok_def)
    from queues_ok_pop [OF _ pop_frame(5,3)] assms(1) have "frame_in k fr" by (simp add: routed_ok_def)
    from handled_data_wait [OF c h this] accepted_frame [OF c h] show ?thesis
      by (simp add: pop_frame(1) h accept_events_def event_defs popped_of_def Let_def)
  qed (use r in \<open>auto simp: event_defs\<close>)
qed

lemma accept_ok_start: "serve_start lib y \<Longrightarrow> accept_ok [] y"
  by (auto simp: serve_start_def accept_ok_def new_conn)

interpretation serve_accept: trace_system "serve_start lib" "serve_step lib" routed_ok accept_ok for lib
  by unfold_locales (auto intro: routed_ok_start routed_ok_step accept_ok_start accept_ok_serve_step)

section \<open>From the wire to the reader\<close>

lemma taken_left: "subseq (taken_of tr r) (left_of tr r)"
proof (induction tr)
  case (Cons e tr)
  then show ?case by (cases e) (auto simp: event_defs)
qed simp

text \<open>The stream a frame is for.\<close>

fun frame_for :: "stream_id \<Rightarrow> frame \<Rightarrow> bool" where
  "frame_for sid (Data f) = (df_StreamId f = sid)"
| "frame_for sid _ = False"

lemma data_of_filter: "data_of sid (filter (frame_for sid) frs) = data_of sid frs"
  by (induction frs) (auto simp: data_of_def split: frame.split)

text \<open>
  C3: From the queues to the readers: suppose the data frames for the id of a stream were all
  queued with the same priority (that is, \<open>SetPriority\<close> was not used on it meanwhile).  Then
  in every run what the readers of the stream have got, with what is left in its \<open>unread\<close> buffer,
  is the data of some of these frames, each whole and at most once, in the order the read loop
  queued them, whichever way the workers, the readers and the other streams interleave.
\<close>

theorem reads_in_arrival_order:
  assumes "serves lib tr y" "r < length (cn_store (sy_conn y))"
    "sid = sm_streamId (stream_at (sy_conn y) r)" "ins = queued_of tr (partition_of sid)" "length ins < 2 ^ 64"
    "\<forall>(fr, p)\<in>set ins. frame_for sid fr \<longrightarrow> p = p0"
  shows "\<exists>ds. subseq ds (data_of sid (map fst ins)) \<and> out_of tr r @ unread_of (sy_conn y) r = concat ds"
proof -
  let ?k = "partition_of sid"
  have "from_calls (sy_queues y ! ?k) ins (popped_of tr ?k)"
    using serve_order.run_tinv [OF assms(1)] partition_of_less [of sid] assms(4) by (simp add: order_ok_def)
  from arg_cong [OF from_calls_order [OF this assms(5,6)], of "data_of sid"]
  have "subseq (data_of sid (popped_of tr ?k)) (data_of sid (map fst ins))" by (simp add: data_of_filter prefix_imp_subseq)
  moreover have "subseq (accepted_of tr r) (data_of sid (popped_of tr ?k))"
    using serve_accept.run_tinv [OF assms(1)] assms(2,3) by (rule accept_okD)
  moreover have "subseq (taken_of tr r) (accepted_of tr r)"
    using serve_data.run_tinv [OF assms(1)] assms(2) taken_left [of tr r] by (simp add: data_ok_def list_emb_prefix)
  ultimately have "subseq (taken_of tr r) (data_of sid (map fst ins))" by (meson subseq_order.trans)
  moreover have "out_of tr r @ unread_of (sy_conn y) r = concat (taken_of tr r)"
    using serve_data.run_tinv [OF assms(1)] assms(2) by (simp add: data_ok_def)
  ultimately show ?thesis by blast
qed

lemma ex_queued: "queued_of ex_trace 1 = [(SynReply ex_reply, 0), (Data (ex_data 5), 0), (Data (ex_data 6), 0)]"
  by (simp add: ex_trace_def queued_of_def)

theorem reads_in_arrival_order_witness:
  "\<exists>y ds. serves id_lib ex_trace y \<and> subseq ds [[5, 7], [6, 7]] \<and>
     out_of ex_trace 0 @ unread_of (sy_conn y) 0 = concat ds"
proof -
  obtain out where r: "serves id_lib ex_trace (ex_end out)" using ex_run by (auto simp: ex_end_def)
  let ?ins = "queued_of ex_trace (partition_of 1)"
  have ins: "?ins = [(SynReply ex_reply, 0), (Data (ex_data 5), 0), (Data (ex_data 6), 0)]"
    by (simp only: partition_1 ex_queued)
  have "data_of 1 (map fst ?ins) = [[5, 7], [6, 7]]" unfolding ins by (simp add: data_of_def ex_data_def)
  with reads_in_arrival_order [OF r, of 0 1 ?ins 0] r show ?thesis
    by (intro exI [of _ "ex_end out"]) (simp add: ex_end_sel ins)
qed

text \<open>
  C21: Changing the priority of a stream changes the order of its data: there is a run in which
  two data frames of one stream are queued, the application calls \<open>SetPriority\<close> between
  them, and the readers get the data of the second frame before that of the first.
\<close>

theorem SetPriority_reorders_data:
  "\<exists>tr y d1 d2. serves id_lib tr y \<and> d1 \<noteq> d2 \<and> sm_streamId (stream_at (sy_conn y) 0) = 1 \<and>
     data_of 1 (map fst (queued_of tr (partition_of 1))) = [d1, d2] \<and> out_of tr 0 = d2 @ d1"
proof -
  obtain y where y: "serves id_lib ex_overtaken y" "sm_streamId (stream_at (sy_conn y) 0) = 1"
    using ex_overtaking_run by blast
  have "data_of 1 (map fst (queued_of ex_overtaken (partition_of 1))) = [[5, 7], [6, 7]]"
    unfolding partition_1 by (simp add: ex_overtaken_def queued_of_def data_of_def ex_data_def)
  moreover have "out_of ex_overtaken 0 = [6, 7] @ [5, 7]" by (simp add: ex_overtaken_def event_defs)
  moreover have "[5, 7] \<noteq> ([6, 7] :: byte list)" by simp
  ultimately show ?thesis using y by blast
qed

end
