(* ===== verification/Serve_Life.thy ===== *)
theory Serve_Life
  imports Serve_Order
begin

text \<open>
  The life of a connection: the idle monitor, going away, shutting down, the end of \<open>Serve\<close>,
  and that no channel of it is closed twice on the way.
\<close>

section \<open>What most operations leave alone\<close>

definition chans :: "('c, 'd) connection \<Rightarrow> bool \<times> bool \<times> bool \<times> bool" where
  "chans s = (if_running (cn_framer s), if_setOpen (cn_framer s), cn_shutdownChan_closed s, cn_panicked s)"

definition life ::
  "('c, 'd) connection \<Rightarrow> bool \<times> bool \<times> bool \<times> bool \<times> shutdown_state \<times> go_task list \<times> bool \<times> bool \<times> bool \<times> bool" where
  "life s = (if_open (cn_framer s), cn_closeChan_closed s, cn_goneAway s, cn_hasShutdown s, cn_shutdown s, cn_tasks s,
     chans s)"

named_theorems life_simps

lemma life_write [life_simps]: "life (snd (cn_write lib fr s)) = life s"
  by (auto simp: life_def chans_def cn_write_def iaf_WriteFrame_def split: prod.split option.split)

lemma life_upd [life_simps]: "life (upd_stream r g s) = life s" "life (removeStream r s) = life s" "life (addStream r s) = life s"
  "life (s\<lparr>cn_store := st\<rparr>) = life s"
  by (simp_all add: life_def chans_def upd_stream_def removeStream_def addStream_def)

lemma life_finish [life_simps]: "life (closeRemoteChannels r s) = life s" "life (remoteStreamFinish r s) = life s"
  "life (finish_stream r s) = life s" "life (data_fin r fin s) = life s"
  by (simp_all add: closeRemoteChannels_eq remoteStreamFinish_def finish_stream_def data_fin_def Let_def life_simps)

lemma life_nextId [life_simps]: "life (snd (getNextStreamId s)) = life s"
  by (simp add: getNextStreamId_def Let_def life_def chans_def)

lemma life_send [life_simps]: "life (snd (sendStream lib r fin s)) = life s" "life (snd (sendReply lib hs r fin s)) = life s"
  "life (snd (sendReset lib st r s)) = life s" "life (snd (sendResetFrame lib st sid s)) = life s"
  "life (snd (sendHeaders lib hs r fin s)) = life s"
  by (simp_all add: sendStream_def sendReply_def sendReset_def sendResetFrame_def sendHeaders_def Let_def life_simps)

lemma life_CreateStream [life_simps]: "life (snd (CreateStream lib hs p fin s)) = life s"
  using life_nextId [of s] by (simp add: CreateStream_def alloc_stream_def case_prod_unfold life_simps)

lemma life_WriteData: "WriteData lib d fin r s = Some x \<Longrightarrow> life (snd x) = life s"
  by (auto simp: WriteData_def Let_def life_simps split: if_splits)

lemma life_resetStream [life_simps]: "life (snd (resetStream lib r s)) = life s"
  by (simp add: resetStream_def Let_def life_simps)

lemma life_SendReply [life_simps]: "life (snd (SendReply lib hs fin r s)) = life s"
proof -
  obtain err s1 where r: "sendReply lib hs r fin s = (err, s1)" by fastforce
  then have "life s1 = life s" using life_send(2) by (metis snd_conv)
  with r show ?thesis by (cases err) (simp_all add: SendReply_def life_simps)
qed

text \<open>The calls that start a shutdown apart, no call of the application changes any of these.\<close>

lemma life_api:
  assumes "api_run lib c s = Some s'" "c \<noteq> A_Close"
  shows "life s' = life s"
proof (cases c)
  case (A_WriteData d fin r)
  with assms(1) show ?thesis by (auto dest!: life_WriteData)
next
  case (A_SetIdleTimeout t)
  with assms(1) show ?thesis
    by (auto simp: SetIdleTimeout_def setIdleTimeout_def life_def chans_def split: if_splits)
qed (use assms in \<open>auto simp: life_simps close_check_def Reset_def SetPriority_def SendHeader_def Refuse_def s_Cancel_def
      ping_send_def\<close>,
   auto simp: life_def chans_def NotifyClose_def SetCloseTimeout_def ping_register_def ping_unregister_def)

lemma life_ping: "handlePingFrame lib fr s = Some x \<Longrightarrow> life (snd x) = life s"
  by (auto simp: handlePingFrame_def life_simps split: if_splits option.splits) (simp add: life_def chans_def)

lemma life_close_start: "close_start r s = Some s' \<Longrightarrow> life s' = life s"
  by (auto simp: close_start_def life_simps split: if_splits)

lemma life_handle:
  assumes "\<And>g. fr \<noteq> GoAway g"
  shows "life (handled_conn s (handleFrame lib fr s)) = life s"
  using assms by (cases fr) (auto simp: handleStreamFrame_def handleReplyFrame_def handleResetFrame_def
      handleHeaderFrame_def handleDataFrame_def Let_def life_simps dest!: life_ping life_close_start split: option.split)

lemma life_resume [life_simps]: "life (handled_conn s (resume w taken s)) = life s"
  by (cases w) (auto simp: resume.simps life_simps dest!: life_close_start split: option.split)

lemma life_Read: "s_Read n x r s = (res, s') \<Longrightarrow> life s' = life s"
  by (auto simp: s_Read_def copy_unread_def Let_def life_simps split: option.splits)

section \<open>Shutdown is called once\<close>

text \<open>
  The calls of \<open>shutdown\<close>, those that wait to run and the one that ran first.
\<close>

fun is_Shutdown :: "go_task \<Rightarrow> bool" where
  "is_Shutdown (Shutdown_Task t) = True"
| "is_Shutdown _ = False"

definition shutdowns :: "('c, 'd) connection \<Rightarrow> nat" where
  "shutdowns s = length (filter is_Shutdown (cn_tasks s)) + (if cn_hasShutdown s then 1 else 0)"

text \<open>
  The channels of the connection itself: nothing was closed twice, the channel of \<open>shutdown\<close> is
  closed when that is done, and the monitor, while it runs, has its channels still to close.
\<close>

definition chans_ok :: "('c, 'd) connection \<Rightarrow> bool" where
  "chans_ok s = (\<not> cn_panicked s \<and> (cn_shutdownChan_closed s \<longrightarrow> cn_shutdown s = Sd_Done) \<and>
     (if_running (cn_framer s) \<longrightarrow> if_open (cn_framer s) \<and> if_setOpen (cn_framer s)))"

definition balanced :: "('c, 'd) connection \<Rightarrow> bool" where
  "balanced s = (shutdowns s = (if cn_goneAway s then 1 else 0) \<and> (cn_hasShutdown s \<longleftrightarrow> cn_shutdown s \<noteq> Sd_None) \<and>
     chans_ok s)"

lemma balanced_life: "life s' = life s \<Longrightarrow> balanced s' = balanced s"
  by (simp add: balanced_def shutdowns_def life_def chans_def chans_ok_def)

lemma balanced_same:
  assumes "balanced s" "cn_tasks s' = cn_tasks s" "cn_hasShutdown s' = cn_hasShutdown s" "cn_goneAway s' = cn_goneAway s"
    "cn_shutdown s' = Sd_None \<longleftrightarrow> cn_shutdown s = Sd_None" "chans_ok s'"
  shows "balanced s'"
proof -
  have "shutdowns s' = shutdowns s" using assms(2,3) by (simp add: shutdowns_def)
  with assms show ?thesis by (simp add: balanced_def)
qed

lemma balanced_chans: "balanced s \<Longrightarrow> chans_ok s"
  by (simp add: balanced_def)

lemma balanced_spawn: "\<not> is_Shutdown t \<Longrightarrow> balanced (spawn t s) = balanced s"
  by (simp add: balanced_def shutdowns_def spawn_def chans_ok_def)

lemma balanced_Close: "balanced s \<Longrightarrow> balanced (snd (Close lib s))"
proof (cases "cn_goneAway s")
  case False
  let ?s = "s\<lparr>cn_goneAway := True\<rparr>"
  assume b: "balanced s"
  have "balanced (spawn (Shutdown_Task t) s1)" if "life s1 = life ?s" for s1 t
    using b False that by (auto simp: balanced_def shutdowns_def life_def chans_def chans_ok_def spawn_def split: if_splits)
  from this [OF life_write] False show ?thesis by (simp add: Close_def Let_def case_prod_unfold)
qed (simp add: Close_def)

lemma balanced_goaway: "balanced s \<Longrightarrow> balanced (snd (handleGoAwayFrame fr s))"
  by (auto simp: handleGoAwayFrame_def Let_def balanced_def shutdowns_def chans_ok_def spawn_def split: if_splits)

lemma balanced_checks: "checkStreamFrame fr s = (b, s') \<Longrightarrow> balanced s \<Longrightarrow> balanced s'"
  by (auto simp: checkStreamFrame_def validateStreamId_def spawn_def balanced_def shutdowns_def chans_ok_def split: if_splits)

lemma life_addStreamFrame [life_simps]: "life (addStreamFrame fr s) = life s"
  by (simp add: addStreamFrame_def Let_def alloc_stream_def life_simps)

lemma balanced_handle: "balanced s \<Longrightarrow> balanced (handled_conn s (handleFrame lib fr s))"
  by (cases "\<exists>g. fr = GoAway g") (auto simp: balanced_goaway balanced_life [OF life_handle])

lemma filter_drop:
  "i < length xs \<Longrightarrow> length (filter P xs) = length (filter P (take i xs @ drop (Suc i) xs)) + (if P (xs ! i) then 1 else 0)"
  by (subst (1) id_take_nth_drop [of i xs]) simp_all

lemma balanced_task:
  assumes "balanced s" "i < length (cn_tasks s)"
  shows "balanced (run_task lib (cn_tasks s ! i) (drop_task i s))"
proof -
  let ?t = "cn_tasks s ! i" and ?s = "drop_task i s"
  have n: "shutdowns s = shutdowns ?s + (if is_Shutdown ?t then 1 else 0)"
    using filter_drop [OF assms(2), of is_Shutdown] by (simp add: shutdowns_def drop_task_def)
  have sel: "cn_goneAway ?s = cn_goneAway s" "cn_hasShutdown ?s = cn_hasShutdown s" "cn_shutdown ?s = cn_shutdown s"
    "chans_ok ?s = chans_ok s" by (simp_all add: drop_task_def chans_ok_def)
  show ?thesis
  proof (cases ?t)
    case (Shutdown_Task t)
    with n assms(1) sel show ?thesis
      by (auto simp: run_task_def shutdown_begin_def balanced_def shutdowns_def chans_ok_def drop_task_def split: if_splits)
  next
    case (Idle_Task rs)
    with n sel assms(1) have b: "balanced ?s" by (simp add: balanced_def)
    with Idle_Task show ?thesis
      by (cases rs) (simp_all add: run_task_def balanced_Close balanced_spawn balanced_life [OF life_resetStream])
  next
    case (Reset_Task status sid)
    with n sel assms(1) have "balanced ?s" by (simp add: balanced_def)
    with Reset_Task show ?thesis by (simp add: run_task_def balanced_life [OF life_send(4)])
  next
    case (Notify_Task st)
    with n sel assms(1) show ?thesis by (simp add: run_task_def balanced_def)
  qed
qed

lemma balanced_api:
  assumes "api_run lib c s = Some s'" "balanced s"
  shows "balanced s'"
proof (cases "c = A_Close")
  case True
  with assms show ?thesis by (auto simp: balanced_Close)
next
  case False
  from balanced_life [OF life_api [OF assms(1) False]] assms(2) show ?thesis by simp
qed

lemma balanced_monitor:
  assumes "Some s' \<in> set (monitor_moves s)" "balanced s"
  shows "balanced s'"
proof -
  have "balanced (s\<lparr>cn_framer := i\<rparr>)" if "if_running i \<longrightarrow> if_open i \<and> if_setOpen i" for i
    by (rule balanced_same [OF assms(2)]) (use balanced_chans [OF assms(2)] that in \<open>simp_all add: chans_ok_def\<close>)
  moreover have run: "if_running (cn_framer s) \<longrightarrow> if_open (cn_framer s) \<and> if_setOpen (cn_framer s)"
    using balanced_chans [OF assms(2)] by (simp add: chans_ok_def)
  moreover have "if_running i' \<longrightarrow> if_open i' \<and> if_setOpen i'" if "timer_fires (cn_framer s) = Some i'" for i'
    using that run by (auto simp: timer_fires_def split: if_splits)
  ultimately show ?thesis
    using assms(1) by (auto simp: monitor_moves_def monitor_stop_def monitor_timeout_def Let_def
        split: if_splits option.splits)
qed

lemma balanced_netconn [simp]: "balanced (netconn_Close s) = balanced s" "cn_shutdown (netconn_Close s) = cn_shutdown s"
  by (simp_all add: balanced_def shutdowns_def chans_ok_def netconn_Close_def Let_def)

text \<open>While \<open>shutdown\<close> is at work its channel is open.\<close>

lemma balanced_set:
  assumes "balanced s" "cn_shutdown s \<noteq> Sd_None" "cn_shutdown s \<noteq> Sd_Done"
  shows "d \<noteq> Sd_None \<Longrightarrow> balanced (s\<lparr>cn_shutdown := d\<rparr>)" "balanced (close_shutdownChan s)"
    "balanced (shutdown_finish t err s)"
proof -
  note c = balanced_chans [OF assms(1)]
  show 1: "balanced (s\<lparr>cn_shutdown := d\<rparr>)" if "d \<noteq> Sd_None" for d
    by (rule balanced_same [OF assms(1)]) (use c assms(2,3) that in \<open>simp_all add: chans_ok_def\<close>)
  show 2: "balanced (close_shutdownChan s)"
    by (rule balanced_same [OF assms(1)]) (use c assms(2,3) in \<open>auto simp: chans_ok_def close_shutdownChan_def\<close>)
  show "balanced (shutdown_finish t err s)" using 1 2 by (simp add: shutdown_finish_def split: option.split)
qed

lemma balanced_shutdown:
  assumes "Some s' \<in> set (shutdown_moves err s)" "balanced s"
  shows "balanced s'"
  using assms by (cases "cn_shutdown s")
    (auto simp: shutdown_moves_def shutdown_seen_def shutdown_graceful_def shutdown_timeout_def shutdown_cleared_def
      shutdown_reported_def intro!: balanced_set split: if_splits bool.splits)

section \<open>The invariant\<close>

text \<open>
  While the read loop runs, the connection is not closed and the monitor is there; once
  \<open>Serve\<close> has returned, its workers have left.
\<close>

definition life_ok :: "('c, 'd) system \<Rightarrow> bool" where
  "life_ok y = (sys_ok y \<and> balanced (sy_conn y) \<and>
     (sy_phase y \<in> {Reading} \<union> {Pushing k fr p |k fr p. True} \<longrightarrow>
        if_open (cn_framer (sy_conn y)) \<and> \<not> cn_closeChan_closed (sy_conn y)) \<and>
     (sy_phase y = Served \<longrightarrow> (\<forall>k<FRAME_WORKERS. sy_workers y ! k = Exited)))"

definition gate :: "('c, 'd) connection \<Rightarrow> bool \<times> bool" where
  "gate s = (if_open (cn_framer s), cn_closeChan_closed s)"

lemma gate_life: "life s' = life s \<Longrightarrow> gate s' = gate s"
  by (simp add: life_def gate_def)

lemma gate_spawn [simp]: "gate (spawn t s) = gate s" "gate (s\<lparr>cn_goneAway := b\<rparr>) = gate s" "gate (drop_task i s) = gate s"
  by (simp_all add: gate_def spawn_def drop_task_def)

lemma gate_Close: "gate (snd (Close lib s)) = gate s"
  by (simp add: Close_def Let_def case_prod_unfold gate_life [OF life_write])

lemma gate_api: "api_run lib c s = Some s' \<Longrightarrow> gate s' = gate s"
  by (cases "c = A_Close") (auto simp: gate_Close dest: life_api gate_life)

lemma gate_goaway: "gate (snd (handleGoAwayFrame fr s)) = gate s"
  by (simp add: handleGoAwayFrame_def Let_def)

lemma gate_handle: "gate (handled_conn s (handleFrame lib fr s)) = gate s"
  by (cases "\<exists>g. fr = GoAway g") (auto simp: gate_goaway gate_life [OF life_handle])

lemma gate_task: "gate (run_task lib t s) = gate s"
  by (auto simp: run_task_def gate_Close gate_life [OF life_send(4)] gate_life [OF life_resetStream]
      split: go_task.split list.split) (simp add: gate_def shutdown_begin_def)

lemma gate_shutdown: "Some s' \<in> set (shutdown_moves err s) \<Longrightarrow> gate s' = gate s"
  by (auto simp: shutdown_moves_def shutdown_seen_def shutdown_graceful_def shutdown_timeout_def
      shutdown_cleared_def shutdown_reported_def shutdown_finish_def close_shutdownChan_def panics_def
      netconn_Close_def Let_def gate_def split: if_splits option.splits shutdown_state.splits bool.splits)

lemma gate_monitor: "Some s' \<in> set (monitor_moves s) \<Longrightarrow> gate s = (True, False) \<Longrightarrow> gate s' = (True, False)"
  by (auto simp: monitor_moves_def gate_def monitor_timeout_def timer_fires_def Let_def split: if_splits option.splits)

lemma gate_route: "route fr rr s = (x, rr', s') \<Longrightarrow> gate s' = gate s"
proof (cases fr)
  case (SynStream f)
  assume r: "route fr rr s = (x, rr', s')"
  obtain b s1 where c: "checkStreamFrame f s = (b, s1)" by fastforce
  then have "gate s1 = gate s"
    by (auto simp: checkStreamFrame_def validateStreamId_def gate_def spawn_def split: if_splits)
  with r SynStream c show ?thesis by (cases b) (auto simp: gate_life [OF life_addStreamFrame])
qed (auto simp: stream_route_def)

lemma balanced_route: "route fr rr s = (x, rr', s') \<Longrightarrow> balanced s \<Longrightarrow> balanced s'"
  by (cases fr) (auto simp: stream_route_def balanced_life [OF life_addStreamFrame] split: prod.splits bool.splits
      dest: balanced_checks)

lemma ReadFrame_gate: "iaf_ReadFrame lib i = Some (x, i') \<Longrightarrow> if_open i' = if_open i"
  by (auto simp: iaf_ReadFrame_def split: prod.splits sum.splits if_splits)

lemma life_fold_close: "life (fold close_if_mapped rs s) = life s"
  by (induction rs arbitrary: s) (simp_all add: close_if_mapped_def life_simps)

lemma life_close_all [life_simps]: "life (close_all_streams s) = life s"
  using life_fold_close [of "[0..<length (cn_store s)]" s] by (simp add: close_all_streams_def life_def chans_def)

lemma balanced_framer [simp]: "balanced (read_failed err s) = balanced s" "balanced (close_all_streams s) = balanced s"
  "balanced (idle_expire rs s) = balanced s"
  by (simp_all add: balanced_life [OF life_close_all])
    (simp_all add: balanced_def shutdowns_def chans_ok_def read_failed_def netconn_Close_def idle_expire_def spawn_def
      Let_def split: go_error.split)

text \<open>\<open>Serve\<close> closes \<open>closeChan\<close> when it leaves its loop; it must be open then.\<close>

lemma balanced_closeChan: "balanced s \<Longrightarrow> \<not> cn_closeChan_closed s \<Longrightarrow> balanced (close_closeChan s)"
  by (rule balanced_same) (auto simp: close_closeChan_def chans_ok_def dest: balanced_chans)

lemma ReadFrame_balanced:
  "iaf_ReadFrame lib (cn_framer s) = Some (x, i) \<Longrightarrow> balanced (s\<lparr>cn_framer := i\<rparr>) = balanced s"
  by (auto simp: iaf_ReadFrame_def balanced_def shutdowns_def chans_ok_def split: prod.splits sum.splits if_splits)

lemma gate_read_failed [simp]: "gate (read_failed err s) = gate s"
  by (simp add: gate_def read_failed_def netconn_Close_def Let_def split: go_error.split)

lemma balanced_serve_end: "balanced s \<Longrightarrow> balanced (serve_end g s)"
  by (cases g) (simp_all add: serve_end_def balanced_goaway)

lemma gate_idle [simp]: "gate (idle_expire rs s) = gate s"
  by (simp add: gate_def idle_expire_def spawn_def)

lemma reading_phase: "(p \<in> {Reading} \<union> {Pushing k fr x |k fr x. True}) = (p = Reading \<or> (\<exists>k fr x. p = Pushing k fr x))"
  by auto

lemma life_okI:
  assumes "life_ok y" "sys_ok y'" "balanced (sy_conn y')"
    "\<And>p. sy_phase y' = p \<Longrightarrow> p = Reading \<or> (\<exists>k fr x. p = Pushing k fr x) \<Longrightarrow>
       (gate (sy_conn y) = (True, False) \<and> (sy_phase y = Reading \<or> (\<exists>k fr x. sy_phase y = Pushing k fr x)) \<longrightarrow>
          gate (sy_conn y') = (True, False)) \<and> (sy_phase y = Reading \<or> (\<exists>k fr x. sy_phase y = Pushing k fr x))"
    "sy_phase y' = Served \<Longrightarrow> \<forall>k<FRAME_WORKERS. sy_workers y' ! k = Exited"
  shows "life_ok y'"
  using assms unfolding life_ok_def reading_phase gate_def by blast

lemma phase_result: "sy_phase (worker_result k h y) = (if h = Panicked then Crashed else sy_phase y)"
  by (cases h) (simp_all add: worker_result_def)

lemma served_stuck:
  assumes "life_ok y" "sy_phase y = Served" "k < FRAME_WORKERS"
  shows "sy_workers y ! k = Exited"
  using assms by (simp add: life_ok_def)

lemma life_ok_step:
  assumes "life_ok y" "serve_step lib y es y'"
  shows "life_ok y'"
proof -
  have ok: "sys_ok y'" using assms sys_ok_step by (auto simp: life_ok_def)
  have b: "balanced (sy_conn y)" using assms(1) by (simp add: life_ok_def)
  note I = life_okI [OF assms(1) ok] and st = served_stuck [OF assms(1)]
  have worker: "life_ok y'" if "k < FRAME_WORKERS" "sy_workers y ! k \<noteq> Exited" "gate (sy_conn y') = gate (sy_conn y)"
    "balanced (sy_conn y')" "sy_phase y' = Crashed \<or> sy_phase y' = sy_phase y" for k
    using that st [of k] by (intro I) (elim disjE exE; simp)+
  have res: "life_ok y'" if "k < FRAME_WORKERS" "sy_workers y ! k = Waiting w"
    "y' = worker_result k (resume w taken (sy_conn y)) y" for k w taken
    using that worker [of k] by (simp add: result_conn gate_life [OF life_resume] balanced_life [OF life_resume] b phase_result)
  show ?thesis
    using assms(2)
  proof cases
    case (read_frame fr i k p rr s)
    have "gate s = gate (sy_conn y)"
      using gate_route [OF read_frame(5)] ReadFrame_gate [OF read_frame(4)] by (simp add: gate_def)
    moreover have "balanced s" using balanced_route [OF read_frame(5)] b ReadFrame_balanced [OF read_frame(4)] by simp
    ultimately show ?thesis using read_frame by (intro I) auto
  next
    case (reject_frame fr i rr s)
    have "gate s = gate (sy_conn y)"
      using gate_route [OF reject_frame(5)] ReadFrame_gate [OF reject_frame(4)] by (simp add: gate_def)
    moreover have "balanced s" using balanced_route [OF reject_frame(5)] b ReadFrame_balanced [OF reject_frame(4)] by simp
    ultimately show ?thesis using reject_frame by (intro I) auto
  next
    case (read_goaway fr i g rr s)
    have "gate s = gate (sy_conn y)"
      using gate_route [OF read_goaway(5)] ReadFrame_gate [OF read_goaway(4)] by (simp add: gate_def)
    moreover have "\<not> cn_closeChan_closed (sy_conn y)" using assms(1) read_goaway(3) by (simp add: life_ok_def)
    ultimately have "\<not> cn_closeChan_closed s" by (simp add: gate_def)
    moreover have "balanced s" using balanced_route [OF read_goaway(5)] b ReadFrame_balanced [OF read_goaway(4)] by simp
    ultimately show ?thesis using read_goaway by (intro I) (auto simp: balanced_closeChan)
  next
    case (pop_frame k fr q)
    with worker [of k] show ?thesis by (simp add: result_conn gate_handle balanced_handle b phase_result)
  next
    case (worker_exits k q)
    with st [of k] b show ?thesis by (intro I) auto
  next
    case (data_read k r d fin n bs s)
    have "life s = life (sy_conn y)" using life_Read [OF data_read(6)] .
    then have l: "life (sy_conn y') = life (sy_conn y)"
      by (simp add: data_read(2) result_conn resume.simps life_simps)
    with worker [of k] data_read(3,4) gate_life [OF l] balanced_life [OF l] b show ?thesis
      by (simp add: data_read(2) phase_result)
  next
    case (unread_read r u n bs s)
    have l: "life s = life (sy_conn y)" using life_Read [OF unread_read(5)] .
    with unread_read st show ?thesis by (intro I) (auto simp: gate_life [OF l] balanced_life [OF l] b)
  next
    case (api c s)
    with st show ?thesis by (intro I) (auto simp: gate_api [OF api(4)] balanced_api [OF api(4) b])
  next
    case (task i)
    with st show ?thesis by (intro I) (auto simp: gate_task balanced_task b)
  next
    case (monitor s)
    with st show ?thesis by (intro I) (auto simp: gate_monitor [OF monitor(3)] balanced_monitor [OF monitor(3) b])
  next
    case (shutting_down s err)
    with st show ?thesis
      by (intro I) (auto simp: gate_shutdown [OF shutting_down(3)] balanced_shutdown [OF shutting_down(3) b])
  next
    case (serve_ends g)
    with b show ?thesis by (intro I) (auto simp: balanced_serve_end)
  next
    case (read_error err i)
    let ?s = "read_failed err ((sy_conn y)\<lparr>cn_framer := i\<rparr>)"
    have "gate ?s = gate (sy_conn y)" using ReadFrame_gate [OF read_error(4)] by (simp add: gate_def [of "_\<lparr>cn_framer := i\<rparr>"]) (simp add: gate_def)
    moreover have "\<not> cn_closeChan_closed (sy_conn y)" using assms(1) read_error(3) by (simp add: life_ok_def)
    ultimately have "\<not> cn_closeChan_closed ?s" by (simp add: gate_def)
    moreover have "balanced ?s" using b ReadFrame_balanced [OF read_error(4)] by simp
    ultimately show ?thesis using read_error by (intro I) (auto simp: balanced_closeChan)
  next
    case (push_frame k fr p q)
    with b show ?thesis by (intro I) auto
  next
    case (drain_queue k)
    with b st show ?thesis by (intro I) auto
  next
    case (idle rs)
    with b st show ?thesis by (intro I) auto
  qed (use res in blast)+
qed

lemma new_life: "NewConnectionWithOptions lib w r server opts = Inr s \<Longrightarrow>
     life s = (True, False, False, False, Sd_None, [], True, True, False, False)"
  by (auto simp: NewConnectionWithOptions_def newIdleAwareFramer_def life_def chans_def split: sum.splits prod.splits if_splits)

lemma life_ok_start:
  assumes "serve_start lib y"
  shows "life_ok y"
proof -
  from assms have "life (sy_conn y) = (True, False, False, False, Sd_None, [], True, True, False, False)" "sy_phase y = Reading"
    by (auto simp: serve_start_def new_life)
  with sys_ok_start [OF assms] show ?thesis by (auto simp: life_ok_def balanced_def shutdowns_def life_def chans_def chans_ok_def)
qed

interpretation serve_life: invariant_system "serve_start lib" "serve_step lib" life_ok for lib
  by unfold_locales (auto intro: life_ok_start life_ok_step)

section \<open>Channels closed twice\<close>

text \<open>
  A system has crashed when a worker, or another goroutine, has closed a closed channel.
\<close>

definition crashed :: "('c, 'd) system \<Rightarrow> bool" where
  "crashed y = (sy_phase y = Crashed \<or> cn_panicked (sy_conn y))"

text \<open>
  C4: The one way the process comes down by closing a closed channel: if a step of the running
  system closes one, then a worker has taken an answer to one of the connection's own pings whose
  channel was closed already.  Every other \<open>close\<close> of the source meets an open channel, in every
  run: those of a stream's \<open>closeChan\<close> (whatever closes it: a last frame, a reset, the idle
  timeout or the end of \<open>Serve\<close>) and \<open>startChan\<close>, of the connection's \<open>closeChan\<close> and
  \<open>shutdownChan\<close>, and of the monitor's two channels.
\<close>

theorem only_duplicate_pongs_crash:
  assumes "serves lib tr y" "serve_step lib y es y'" "\<not> crashed y" "crashed y'"
  shows "\<exists>k p q ch. k < FRAME_WORKERS \<and> q_Pop (sy_queues y ! k) = Some (Some (Ping p), q) \<and>
     cn_pingId (sy_conn y) AND 1 = pg_Id p AND 1 \<and> cn_pingChans (sy_conn y) (pg_Id p) = Some ch \<and>
     cn_pings (sy_conn y) ! ch"
proof -
  from serve_life.run_inv [OF serves_step [OF assms(1,2)]] have "\<not> cn_panicked (sy_conn y')"
    by (simp add: life_ok_def balanced_def chans_ok_def)
  with assms(3,4) have "sy_phase y \<noteq> Crashed" "sy_phase y' = Crashed" by (auto simp: crashed_def)
  with assms(1,2) show ?thesis by (rule worker_panics)
qed

section \<open>The monitor and the read loop\<close>

text \<open>
  C22: The read loop never hangs on the monitor: whenever \<open>Serve\<close> is about to read a frame,
  in any run, the monitor's channel is not nil, so \<open>ReadFrame\<close> does not send on a nil channel,
  however the idle timeout, \<open>Close\<close> and the shutdown interleave with it.
\<close>

theorem read_never_blocks_on_monitor:
  assumes "serves lib tr y" "sy_phase y = Reading"
  shows "\<exists>x i. iaf_ReadFrame lib (cn_framer (sy_conn y)) = Some (x, i) \<and> if_open i"
proof -
  from serve_life.run_inv [OF assms(1)] assms(2) have "if_open (cn_framer (sy_conn y))" by (simp add: life_ok_def)
  then show ?thesis by (auto simp: iaf_ReadFrame_def split: prod.split sum.split)
qed

text \<open>
  C23: \<open>shutdown\<close> is called at most once in the life of a connection, which the source leaves
  as a TODO: in every reachable state the calls of it, those still to run and the one that ran,
  are one if the connection has gone away and none if it has not; so its channel is closed once.
\<close>

theorem shutdown_called_once:
  assumes "serves lib tr y"
  shows "length (filter is_Shutdown (cn_tasks (sy_conn y))) + (if cn_hasShutdown (sy_conn y) then 1 else 0) =
     (if cn_goneAway (sy_conn y) then 1 else (0::nat)) \<and>
     (cn_hasShutdown (sy_conn y) = (cn_shutdown (sy_conn y) \<noteq> Sd_None))"
  using serve_life.run_inv [OF assms] unfolding life_ok_def balanced_def shutdowns_def by blast

section \<open>After Serve\<close>

lemma run_from:
  assumes "run (\<lambda>x. x = y) step tr y'" "P y" "\<And>a es b. P a \<Longrightarrow> step a es b \<Longrightarrow> P b"
  shows "P y'"
  using assms(1) by (induction rule: run.induct) (auto intro: assms)

text \<open>\<open>Serve\<close> has returned, and a stream's start channel is still open.\<close>

definition orphaned :: "nat \<Rightarrow> ('c, 'd) system \<Rightarrow> bool" where
  "orphaned r y = (life_ok y \<and> sy_phase y = Served \<and> r < length (cn_store (sy_conn y)) \<and>
     \<not> sm_startClosed (stream_at (sy_conn y) r))"

lemma quiet_start:
  "quiet s s' \<Longrightarrow> r < length (cn_store s) \<Longrightarrow>
     r < length (cn_store s') \<and> sm_startClosed (stream_at s' r) = sm_startClosed (stream_at s r)"
  by (simp add: evolves_def same_stream_def)

lemma orphaned_step:
  assumes "orphaned r y" "serve_step lib y es y'"
  shows "orphaned r y'"
proof -
  have l: "life_ok y" "sy_phase y = Served" and r: "r < length (cn_store (sy_conn y))" "\<not> sm_startClosed (stream_at (sy_conn y) r)"
    using assms(1) by (auto simp: orphaned_def)
  note st = served_stuck [OF l]
  have conn: "orphaned r y'" if "quiet (sy_conn y) (sy_conn y')" "sy_phase y' = Served"
    using quiet_start [OF that(1) r(1)] r(2) that(2) life_ok_step [OF l(1) assms(2)] by (simp add: orphaned_def)
  show ?thesis
    using assms(2)
  proof cases
    case (unread_read v u n bs s)
    show ?thesis by (rule conn) (simp_all add: unread_read(2) l(2) s_Read_quiet [OF unread_read(5)])
  next
    case (api c s)
    show ?thesis by (rule conn) (simp_all add: api(2) l(2) quiet.ev_api [OF api(4)])
  next
    case (task i)
    show ?thesis by (rule conn) (simp_all add: task(2) l(2) quiet.ev_task)
  next
    case (monitor s)
    show ?thesis by (rule conn) (simp_all add: monitor(2) l(2) quiet.ev_monitor [OF monitor(3)])
  next
    case (shutting_down s err)
    show ?thesis by (rule conn) (simp_all add: shutting_down(2) l(2) quiet.ev_shutdown [OF shutting_down(3)])
  next
    case (idle rs)
    show ?thesis by (rule conn) (simp_all add: idle(2) l(2) quiet.ev_idle)
  next
    case (drain_queue k)
    show ?thesis by (rule conn) (simp_all add: drain_queue(2) l(2) quiet.ev_refl)
  qed (use l(2) st in auto)
qed

text \<open>
  C29: A \<open>Wait\<close> for a reply that has not come when \<open>Serve\<close> returns is never woken: once
  \<open>Serve\<close> has returned, no step of the system, for ever, closes the start channel of a stream
  that was not replied to, and no worker is left that could send on it; \<open>Wait\<close>, which has no
  timeout, blocks for good.
\<close>

theorem unreplied_stream_waits_for_ever:
  assumes "serves lib tr y" "sy_phase y = Served" "r < length (cn_store (sy_conn y))"
    "\<not> sm_startClosed (stream_at (sy_conn y) r)" "run (\<lambda>x. x = y) (serve_step lib) tr' y'"
  shows "\<not> sm_startClosed (stream_at (sy_conn y') r) \<and> (\<forall>k<FRAME_WORKERS. sy_workers y' ! k \<noteq> Waiting (Wait_Start r))"
proof -
  have "orphaned r y" using assms serve_life.run_inv [OF assms(1)] by (simp add: orphaned_def)
  with assms(5) have "orphaned r y'" by (rule run_from) (rule orphaned_step)
  then show ?thesis by (auto simp: orphaned_def life_ok_def)
qed

text \<open>
  C26: The end of \<open>Serve\<close>: the stream map is empty, the remote end of every stream that was in
  it is closed, so that its readers get what is left unread and then \<open>io.EOF\<close>, and nothing
  else of any stream has changed.
\<close>

theorem serve_end_closes_streams:
  assumes "cn_streams s sid = Some r" "wf_map s"
  shows "cn_streams (serve_end g s) = Map.empty \<and>
     stream_at (serve_end g s) r = (stream_at s r)\<lparr>sm_closeClosed := True\<rparr> \<and>
     s_Read n None r (serve_end g s) =
       (case sm_unread (stream_at s r) of
          None \<Rightarrow> (Inl EOF, serve_end g s)
        | Some u \<Rightarrow> (Inr (take n u), snd (copy_unread n u r (serve_end g s))))"
proof -
  let ?s = "case g of None \<Rightarrow> s | Some fr \<Rightarrow> snd (handleGoAwayFrame fr s)"
  have g: "cn_streams ?s = cn_streams s" "cn_store ?s = cn_store s"
    by (auto simp: handleGoAwayFrame_def Let_def spawn_def split: option.split)
  from assms have r: "r < length (cn_store s)" "sm_streamId (stream_at s r) = sid" by (auto simp: wf_map_def)
  have st: "stream_at ?s r = stream_at s r" using g(2) by (simp add: stream_at_def)
  have "stream_at (serve_end g s) r = (stream_at s r)\<lparr>sm_closeClosed := True\<rparr>"
    using close_all_at [of r ?s] r assms(1) g st by (simp add: serve_end_def)
  moreover have "cn_streams (serve_end g s) = Map.empty" by (simp add: serve_end_def)
  ultimately show ?thesis
    by (auto simp: s_Read_def copy_unread_def Let_def min_def split: option.split)
qed

text \<open>Closing streams one after the other changes nothing but the store.\<close>

lemma fold_store:
  assumes "\<And>r u. f r u = u\<lparr>cn_store := cn_store (f r u)\<rparr>"
  shows "fold f rs s = s\<lparr>cn_store := cn_store (fold f rs s)\<rparr>"
proof (induction rs arbitrary: s)
  case (Cons r rs)
  have e: "(f r s)\<lparr>cn_store := st\<rparr> = s\<lparr>cn_store := st\<rparr>" for st
    using arg_cong [OF assms [of r s], of "\<lambda>u. u\<lparr>cn_store := st\<rparr>"] by simp
  show ?case by (simp only: fold_simps) (rule trans [OF Cons.IH e])
qed simp

lemma same_store: "a = s\<lparr>cn_store := x\<rparr> \<Longrightarrow> b = s\<lparr>cn_store := y\<rparr> \<Longrightarrow> x = y \<Longrightarrow> a = b"
  by simp

lemma close_store:
  "closeRemoteChannels r s = s\<lparr>cn_store := cn_store (closeRemoteChannels r s)\<rparr>"
  "close_if_mapped r s = s\<lparr>cn_store := cn_store (close_if_mapped r s)\<rparr>"
  by (simp_all add: close_if_mapped_def closeRemoteChannels_eq upd_stream_def)

lemma fold_closeRemote_sel [simp]:
  "length (cn_store (fold closeRemoteChannels rs s)) = length (cn_store s)"
  by (induction rs arbitrary: s) (simp_all add: closeRemoteChannels_eq)

lemma fold_closeRemote_at:
  assumes "r < length (cn_store s)"
  shows "stream_at (fold closeRemoteChannels rs s) r =
    (if r \<in> set rs then (stream_at s r)\<lparr>sm_closeClosed := True\<rparr> else stream_at s r)"
  using assms by (induction rs arbitrary: s) (auto simp: closeRemoteChannels_eq stream_at_upd)

text \<open>
  C38: Go visits the entries of a map in an order that changes from run to run; the end of
  \<open>Serve\<close> does not depend on it: closing the streams of the map in any order \<open>rs\<close> and emptying
  the map leaves the connection, every stream and every other field, as the model's fixed order
  does.
\<close>

theorem serve_end_any_order:
  assumes "wf_map s" "set rs = ran (cn_streams s)"
  shows "(fold closeRemoteChannels rs s)\<lparr>cn_streams := Map.empty\<rparr> = close_all_streams s"
proof -
  let ?ks = "[0..<length (cn_store s)]"
  have m: "r \<in> set rs \<longleftrightarrow> cn_streams s (sm_streamId (stream_at s r)) = Some r" for r
    using assms by (auto simp: wf_map_def ran_def)
  have "cn_store (fold closeRemoteChannels rs s) = cn_store (fold close_if_mapped ?ks s)"
  proof (rule nth_equalityI)
    fix r
    assume "r < length (cn_store (fold closeRemoteChannels rs s))"
    then have r: "r < length (cn_store s)" by simp
    then show "cn_store (fold closeRemoteChannels rs s) ! r = cn_store (fold close_if_mapped ?ks s) ! r"
      using fold_closeRemote_at [OF r, of rs] fold_close_at [OF _ r, of ?ks] m [of r] by (simp add: stream_at_def)
  qed simp
  then have "fold closeRemoteChannels rs s = fold close_if_mapped ?ks s"
    by (rule same_store [OF fold_store [OF close_store(1)] fold_store [OF close_store(2)]])
  then show ?thesis by (simp add: close_all_streams_def)
qed

section \<open>The idle timeout\<close>

lemma write_at [simp]: "stream_at (snd (cn_write lib fr s)) v = stream_at s v"
  "length (cn_store (snd (cn_write lib fr s))) = length (cn_store s)" "cn_streams (snd (cn_write lib fr s)) = cn_streams s"
  by (auto simp: stream_at_def cn_write_def split: prod.split)

lemma resetStream_at:
  assumes "v < length (cn_store s)"
  shows "stream_at (snd (resetStream lib r s)) v =
    (if v = r then (stream_at s r)\<lparr>sm_closeClosed := True, sm_finished := True\<rparr> else stream_at s v)"
  using assms by (cases "stream_at s r") (auto simp: resetStream_def Let_def closeRemoteChannels_eq stream_at_upd)

lemma resetStream_sel [simp]: "length (cn_store (snd (resetStream lib r s))) = length (cn_store s)"
  "cn_streams (snd (resetStream lib r s)) = cn_streams s"
  by (simp_all add: resetStream_def Let_def closeRemoteChannels_eq)

lemma Close_sel: "cn_goneAway (snd (Close lib s))" "stream_at (snd (Close lib s)) v = stream_at s v"
  "cn_streams (snd (Close lib s)) = cn_streams s"
proof -
  have "cn_goneAway (snd (cn_write lib fr (s\<lparr>cn_goneAway := True\<rparr>)))" for fr
    using life_write [of lib fr "s\<lparr>cn_goneAway := True\<rparr>"] by (simp add: life_def)
  moreover have "stream_at (spawn t u) v = stream_at u v" "cn_streams (spawn t u) = cn_streams u"
    "cn_goneAway (spawn t u) = cn_goneAway u" "stream_at (u\<lparr>cn_goneAway := True\<rparr>) v = stream_at u v"
    for t and u :: "('a, 'b) connection" by (simp_all add: spawn_def stream_at_def)
  ultimately show "cn_goneAway (snd (Close lib s))" "stream_at (snd (Close lib s)) v = stream_at s v"
    "cn_streams (snd (Close lib s)) = cn_streams s"
    by (simp_all add: Close_def Let_def case_prod_unfold)
qed

lemma resetStream_tasks: "cn_tasks (snd (resetStream lib r s)) = cn_tasks s"
  using life_resetStream [of lib r s] by (simp add: life_def)

lemma spawn_sel [simp]: "cn_store (spawn t s) = cn_store s" "cn_streams (spawn t s) = cn_streams s"
  "cn_tasks (spawn t s) = cn_tasks s @ [t]"
  by (simp_all add: spawn_def)

lemma idle_expire_sel [simp]: "cn_store (idle_expire rs s) = cn_store s" "cn_streams (idle_expire rs s) = Map.empty"
  "cn_tasks (idle_expire rs s) = cn_tasks s @ [Idle_Task rs]"
  by (simp_all add: idle_expire_def)

text \<open>The goroutine that is the last of those that wait to run, run to its end by the scheduler.\<close>

lemma idle_task_runs:
  assumes "length (cn_tasks (sy_conn y)) = Suc n" "cn_tasks (sy_conn y) ! n = Idle_Task rs"
    "r < length (cn_store (sy_conn y))" "set rs \<subseteq> {..<length (cn_store (sy_conn y))}"
  shows "\<exists>y'. exec_run lib (replicate (Suc (length rs)) (C_Task n)) y = Some ([], y') \<and>
     stream_at (sy_conn y') r = (if r \<in> set rs
       then (stream_at (sy_conn y) r)\<lparr>sm_closeClosed := True, sm_finished := True\<rparr> else stream_at (sy_conn y) r) \<and>
     cn_goneAway (sy_conn y') \<and> cn_streams (sy_conn y') = cn_streams (sy_conn y)"
  using assms
proof (induction rs arbitrary: y)
  case Nil
  have "stream_at (drop_task n s) r = stream_at s r" "cn_streams (drop_task n s) = cn_streams s" for s :: "('a, 'b) connection"
    by (simp_all add: drop_task_def stream_at_def)
  with Nil show ?case by (simp add: run_task_def Close_sel)
next
  case (Cons v rs)
  let ?s = "drop_task n (sy_conn y)"
  let ?y = "y\<lparr>sy_conn := spawn (Idle_Task rs) (snd (resetStream lib v ?s))\<rparr>"
  have s: "length (cn_store ?s) = length (cn_store (sy_conn y))" "cn_streams ?s = cn_streams (sy_conn y)"
    "stream_at ?s u = stream_at (sy_conn y) u" "length (cn_tasks ?s) = n" for u
    using Cons.prems(1) by (simp_all add: drop_task_def stream_at_def)
  have t: "length (cn_tasks (sy_conn ?y)) = Suc n" "cn_tasks (sy_conn ?y) ! n = Idle_Task rs"
    using s(4) nth_append_length [of "cn_tasks (snd (resetStream lib v ?s))" "Idle_Task rs" "[]"]
    by (simp_all add: resetStream_tasks)
  have u: "cn_store (sy_conn ?y) = cn_store (snd (resetStream lib v ?s))"
    "cn_streams (sy_conn ?y) = cn_streams (snd (resetStream lib v ?s))" by simp_all
  then have w: "stream_at (sy_conn ?y) r = (if r = v
      then (stream_at (sy_conn y) r)\<lparr>sm_closeClosed := True, sm_finished := True\<rparr> else stream_at (sy_conn y) r)"
    using resetStream_at [of r ?s lib v] Cons.prems(3) s by (simp add: stream_at_def)
  have "r < length (cn_store (sy_conn ?y))" "set rs \<subseteq> {..<length (cn_store (sy_conn ?y))}"
    using Cons.prems(3,4) s by (simp_all add: u)
  from Cons.IH [OF t this] obtain y' where
    "exec_run lib (replicate (Suc (length rs)) (C_Task n)) ?y = Some ([], y')"
    "stream_at (sy_conn y') r = (if r \<in> set rs
       then (stream_at (sy_conn ?y) r)\<lparr>sm_closeClosed := True, sm_finished := True\<rparr> else stream_at (sy_conn ?y) r)"
    "cn_goneAway (sy_conn y')" "cn_streams (sy_conn y') = cn_streams (sy_conn ?y)" by blast
  moreover have "serve_exec lib (C_Task n) y = Some ([], ?y)" using Cons.prems(1,2) by (simp add: run_task_def)
  ultimately show ?case using w s(2) u(2)
    by (intro exI [of _ y'], cases "r = v") (simp_all del: serve_exec.simps split: if_splits)
qed

text \<open>
  C25: When the idle timeout expires, the connection is torn down: the monitor takes the expiry,
  in whatever order \<open>rs\<close> it finds the streams in the map, and the goroutine it spawns for them is
  run to its end; then every stream that was in the map is closed at both ends, so that a reader
  without unread data gets \<open>io.EOF\<close>, the map is empty, the other streams are as before, and the
  connection has gone away.
\<close>

theorem idle_timeout_tears_down:
  assumes "wf_map (sy_conn y)" "if_running (cn_framer (sy_conn y))" "if_expired (cn_framer (sy_conn y))"
    "distinct rs" "set rs = ran (cn_streams (sy_conn y))" "r < length (cn_store (sy_conn y))"
  shows "\<exists>y'. exec_run lib (C_Idle rs # replicate (Suc (length rs)) (C_Task (length (cn_tasks (sy_conn y))))) y = Some ([], y') \<and>
     stream_at (sy_conn y') r = (if r \<in> ran (cn_streams (sy_conn y))
        then (stream_at (sy_conn y) r)\<lparr>sm_closeClosed := True, sm_finished := True\<rparr> else stream_at (sy_conn y) r) \<and>
     cn_streams (sy_conn y') = Map.empty \<and> cn_goneAway (sy_conn y') \<and>
     (sm_unread (stream_at (sy_conn y) r) = None \<longrightarrow> s_Read n None r (sy_conn y') = (Inl EOF, sy_conn y'))"
proof -
  let ?n = "length (cn_tasks (sy_conn y))" and ?y = "y\<lparr>sy_conn := idle_expire rs (sy_conn y)\<rparr>"
  have i: "serve_exec lib (C_Idle rs) y = Some ([], ?y)" using assms(2-5) by simp
  have s: "cn_store (sy_conn ?y) = cn_store (sy_conn y)" "cn_streams (sy_conn ?y) = Map.empty"
    "length (cn_tasks (sy_conn ?y)) = Suc ?n" "cn_tasks (sy_conn ?y) ! ?n = Idle_Task rs"
    by simp_all
  have "set rs \<subseteq> {..<length (cn_store (sy_conn ?y))}" using assms(1,5) s(1) by (auto simp: wf_map_def ran_def)
  moreover have "r < length (cn_store (sy_conn ?y))" using assms(6) s(1) by simp
  ultimately obtain y' where
    "exec_run lib (replicate (Suc (length rs)) (C_Task ?n)) ?y = Some ([], y')"
    "stream_at (sy_conn y') r = (if r \<in> set rs
       then (stream_at (sy_conn ?y) r)\<lparr>sm_closeClosed := True, sm_finished := True\<rparr> else stream_at (sy_conn ?y) r)"
    "cn_goneAway (sy_conn y')" "cn_streams (sy_conn y') = cn_streams (sy_conn ?y)"
    using idle_task_runs [OF s(3,4), of r lib] by blast
  moreover have "stream_at (sy_conn ?y) r = stream_at (sy_conn y) r" using s(1) by (simp add: stream_at_def)
  ultimately show ?thesis using i assms(5)
    by (intro exI [of _ y']) (simp del: serve_exec.simps add: s_Read_def s(2))
qed

section \<open>A run to the end\<close>

text \<open>The client's connection ends while its stream waits for the reply.\<close>

definition ex_ending :: "choice list" where
  "ex_ending = [C_Call (A_CreateStream [] None False), C_Read, C_Drain 0, C_Drain 1, C_Drain 2, C_Drain 3, C_Drain 4,
     C_Pop 0, C_Pop 1, C_Pop 2, C_Pop 3, C_Pop 4, C_End]"

definition ex_ended :: "byte list \<Rightarrow> (unit, unit) system" where
  "ex_ended out = \<lparr>sy_conn = serve_end None (close_closeChan (ex_open out None [] False None 0)), sy_phase = Served,
     sy_roundRobin = 0, sy_queues = replicate FRAME_WORKERS ((ex_q [] 0)\<lparr>pq_drain := True\<rparr>),
     sy_workers = replicate FRAME_WORKERS Exited\<rparr>"

lemma ex_read_EOF: "ReadFrame id_lib (ex_out_framer out d []) = (Inl EOF, ex_out_framer out d [])"
  by (simp add: ex_read)

lemma ex_ending_run: "\<exists>out. serves id_lib [] (ex_ended out)"
proof -
  obtain out where o: "serve_exec id_lib (C_Call (A_CreateStream [] None False))
      (ex_at (ex_client_conn []) Reading (ex_q [] 0) At_Pop) =
     Some ([], ex_at (ex_open out None [] False None 0) Reading (ex_q [] 0) At_Pop)"
    using ex_call_create by blast
  have q: "empty_q = ex_q [] 0" by (simp add: ex_q_def NewPriorityFrameQueue_def heap_Init_def)
  have p: "q_Pop ((ex_q [] 0)\<lparr>pq_drain := True\<rparr>) = Some (None, (ex_q [] 0)\<lparr>pq_drain := True\<rparr>)"
    by (simp add: q_Pop_def ex_q_def)
  have r: "serve_exec id_lib C_Read (ex_at (ex_open out None [] False None 0) Reading (ex_q [] 0) At_Pop) =
    Some ([], ex_at (close_closeChan (ex_open out None [] False None 0)) (Closing None) (ex_q [] 0) At_Pop)"
    by (simp add: exec_read_def ex_at_def ex_open_def iaf_ReadFrame_def newIdleAwareFramer_def ex_read_EOF read_failed_def
        ex_client_conn_def close_closeChan_def)
  have c: "cn_closeChan_closed (close_closeChan s)" for s :: "(unit, unit) connection" by (simp add: close_closeChan_def panics_def)
  have "exec_run id_lib (tl (tl ex_ending))
     (ex_at (close_closeChan (ex_open out None [] False None 0)) (Closing None) (ex_q [] 0) At_Pop) = Some ([], ex_ended out)"
    unfolding ex_ended_def five
    by (simp add: ex_ending_def ex_at_def q c q_Drain_def exec_pop_def p FRAME_WORKERS_def numeral_eq_Suc All_less_Suc)
  then have "exec_run id_lib ex_ending (ex_at (ex_client_conn []) Reading (ex_q [] 0) At_Pop) = Some ([], ex_ended out)"
    by (simp add: ex_ending_def o r del: serve_exec.simps)
  from exec_run_serves [OF ex_at_start this] show ?thesis ..
qed

section \<open>Witnesses\<close>

theorem only_duplicate_pongs_crash_witness:
  "\<exists>tr y y'. serves id_lib tr y \<and> serve_step id_lib y [Popped 1 (Ping pong)] y' \<and> \<not> crashed y \<and> crashed y' \<and>
     (\<exists>k p q. q_Pop (sy_queues y ! k) = Some (Some (Ping p), q) \<and> cn_pings (sy_conn y) ! 0)"
proof -
  obtain tr y y' where r: "serves id_lib tr y" "serve_step id_lib y [Popped 1 (Ping pong)] y'"
    and y: "sy_phase y = Reading" "sy_phase y' = Crashed" "sy_conn y = pinged [] True" using duplicate_pong_run by blast
  have p: "\<not> crashed y" "crashed y'" using y by (simp_all add: crashed_def pinged_def)
  from only_duplicate_pongs_crash [OF r p] obtain k p q ch where
    k: "q_Pop (sy_queues y ! k) = Some (Some (Ping p), q)" "cn_pingChans (sy_conn y) (pg_Id p) = Some ch"
      "cn_pings (sy_conn y) ! ch" by auto
  from k(2) have "ch = 0" by (auto simp: y(3) pinged_def split: if_splits)
  with k p r show ?thesis by blast
qed

theorem read_never_blocks_on_monitor_witness:
  "\<exists>y x i. serves id_lib ex_trace y \<and> iaf_ReadFrame id_lib (cn_framer (sy_conn y)) = Some (x, i) \<and> if_open i"
proof -
  obtain out where r: "serves id_lib ex_trace (ex_end out)" using ex_run by (auto simp: ex_end_def)
  have "sy_phase (ex_end out) = Reading" by (simp add: ex_end_def ex_at_def)
  with read_never_blocks_on_monitor [OF r] r show ?thesis by blast
qed

theorem shutdown_called_once_witness:
  "\<exists>y. serves id_lib [] y \<and> cn_goneAway (sy_conn y) \<and>
     length (filter is_Shutdown (cn_tasks (sy_conn y))) + (if cn_hasShutdown (sy_conn y) then 1 else 0) = (1::nat)"
proof -
  let ?y = "ex_system []"
  let ?y' = "?y\<lparr>sy_conn := snd (Close id_lib (sy_conn ?y))\<rparr>"
  have "serve_step id_lib ?y [] ?y'" by (rule api [of A_Close]) simp_all
  from serves_step [OF ex_serves this] have r: "serves id_lib [] ?y'" by simp
  have g: "cn_goneAway (sy_conn ?y')" by (simp add: Close_sel)
  from shutdown_called_once [OF r] have "length (filter is_Shutdown (cn_tasks (sy_conn ?y'))) +
     (if cn_hasShutdown (sy_conn ?y') then 1 else 0) = (1::nat)" unfolding if_P [OF g] by (rule conjunct1)
  with r g show ?thesis by blast
qed

theorem unreplied_stream_waits_for_ever_witness:
  "\<exists>y. serves id_lib [] y \<and> sy_phase y = Served \<and> sm_closeClosed (stream_at (sy_conn y) 0) \<and>
     \<not> sm_startClosed (stream_at (sy_conn y) 0)"
proof -
  obtain out where r: "serves id_lib [] (ex_ended out)" using ex_ending_run by blast
  let ?s = "close_closeChan (ex_open out None [] False None 0)"
  have at: "stream_at (serve_end None ?s) 0 = (stream_at ?s 0)\<lparr>sm_closeClosed := True\<rparr>"
  proof -
    have "0 < length (cn_store ?s)" "cn_streams ?s (sm_streamId (stream_at ?s 0)) = Some 0"
      by (simp_all add: panics_def close_closeChan_def ex_open_def ex_client_conn_def stream_at_def)
    then show ?thesis by (simp add: serve_end_def close_all_at)
  qed
  have l: "0 < length (cn_store (sy_conn (ex_ended out)))"
    by (simp add: ex_ended_def serve_end_def panics_def close_closeChan_def ex_open_def ex_client_conn_def)
  have n: "\<not> sm_startClosed (stream_at (sy_conn (ex_ended out)) 0)" "sy_phase (ex_ended out) = Served"
    "sm_closeClosed (stream_at (sy_conn (ex_ended out)) 0)"
    by (simp_all add: ex_ended_def at) (simp_all add: panics_def close_closeChan_def ex_open_def ex_client_conn_def stream_at_def)
  have z: "run (\<lambda>x. x = ex_ended out) (serve_step id_lib) [] (ex_ended out)" by (rule run_start) simp
  from unreplied_stream_waits_for_ever [OF r n(2) l n(1) z] r n show ?thesis by blast
qed

theorem serve_end_closes_streams_witness:
  "\<exists>s. cn_streams s 1 = Some 0 \<and> cn_streams (serve_end None s) = Map.empty \<and>
     sm_closeClosed (stream_at (serve_end None (s :: (unit, unit) connection)) 0)"
proof -
  let ?s = "ex_open [] None [] False None 0"
  have "cn_streams ?s 1 = Some 0" "wf_map ?s" by (simp_all add: ex_open_def wf_map_def stream_at_def)
  from serve_end_closes_streams [OF this, of None 1] this show ?thesis
    by (intro exI [of _ ?s]) simp
qed

theorem serve_end_any_order_witness:
  "\<exists>s :: (unit, unit) connection. cn_streams s = [1 \<mapsto> 1, 3 \<mapsto> 0] \<and>
     (fold closeRemoteChannels [0, 1] s)\<lparr>cn_streams := Map.empty\<rparr> = (fold closeRemoteChannels [1, 0] s)\<lparr>cn_streams := Map.empty\<rparr>"
proof -
  let ?c = "ex_open [] None [] False None 0"
  let ?s = "?c\<lparr>cn_streams := [1 \<mapsto> 1, 3 \<mapsto> 0], cn_store := [(stream_at ?c 0)\<lparr>sm_streamId := 3\<rparr>, stream_at ?c 0]\<rparr>"
  have w: "wf_map ?s" by (auto simp: wf_map_def stream_at_def ex_open_def ex_client_conn_def less_Suc_eq split: if_splits)
  have "set [0, 1] = ran (cn_streams ?s)" "set [1, 0] = ran (cn_streams ?s)" by auto
  from serve_end_any_order [OF w this(1)] serve_end_any_order [OF w this(2)] show ?thesis
    by (intro exI [of _ ?s]) simp
qed

theorem idle_timeout_tears_down_witness:
  "\<exists>y y'. cn_streams (sy_conn y) = [1 \<mapsto> 0] \<and> \<not> sm_finished (stream_at (sy_conn y) 0) \<and>
     exec_run id_lib [C_Idle [0], C_Task 0, C_Task 0] y = Some ([], y') \<and> cn_streams (sy_conn y') = Map.empty \<and>
     sm_finished (stream_at (sy_conn y') 0) \<and> s_Read 9 None 0 (sy_conn y') = (Inl EOF, sy_conn y')"
proof -
  let ?c = "ex_open [] None [] False None 0"
  let ?y = "ex_at (?c\<lparr>cn_framer := (cn_framer ?c)\<lparr>if_timer := Stopped, if_expired := True\<rparr>\<rparr>) Reading (ex_q [] 0) At_Pop"
  obtain y :: "(unit, unit) system" where
    1: "wf_map (sy_conn y)" "if_running (cn_framer (sy_conn y))" "if_expired (cn_framer (sy_conn y))"
      "cn_streams (sy_conn y) = [1 \<mapsto> 0]" "0 < length (cn_store (sy_conn y))"
    and 2: "sm_unread (stream_at (sy_conn y) 0) = None" "cn_tasks (sy_conn y) = []" "\<not> sm_finished (stream_at (sy_conn y) 0)"
    by (rule that [of ?y])
      (simp_all add: ex_at_def ex_open_def ex_client_conn_def wf_map_def stream_at_def newIdleAwareFramer_def)
  have 3: "C_Idle [0] # replicate (Suc (length [0::nat])) (C_Task (length (cn_tasks (sy_conn y)))) =
      [C_Idle [0], C_Task 0, C_Task 0]" by (simp add: 2(2))
  have "distinct [0::nat]" "set [0] = ran (cn_streams (sy_conn y))" by (simp_all add: 1(4))
  from idle_timeout_tears_down [OF 1(1-3) this 1(5), of id_lib 9, unfolded 3] obtain y' where
    4: "exec_run id_lib [C_Idle [0], C_Task 0, C_Task 0] y = Some ([], y')" "cn_streams (sy_conn y') = Map.empty"
      "stream_at (sy_conn y') 0 = (if 0 \<in> ran (cn_streams (sy_conn y))
         then (stream_at (sy_conn y) 0)\<lparr>sm_closeClosed := True, sm_finished := True\<rparr> else stream_at (sy_conn y) 0)"
      "sm_unread (stream_at (sy_conn y) 0) = None \<longrightarrow> s_Read 9 None 0 (sy_conn y') = (Inl EOF, sy_conn y')"
    by (elim exE conjE) (rule that)
  have "sm_finished (stream_at (sy_conn y') 0)" using 4(3) by (simp add: 1(4))
  with 4(1,2) 4(4) [rule_format, OF 2(1)] 1(4) 2(3) show ?thesis by blast
qed

end
