(* ===== verification/Stream_Life.thy ===== *)
theory Stream_Life
  imports Serve_Order
begin

text \<open>
  The life of one stream: when both ends have finished it, it leaves the map, unless the two
  ends finish at the same time; and who may make a stream with which id.
\<close>

section \<open>Closing at both ends\<close>

lemma write_sel: "cn_streams (snd (cn_write lib fr s)) = cn_streams s" "cn_store (snd (cn_write lib fr s)) = cn_store s"
  by (auto simp: cn_write_def split: prod.split)

lemma WriteData_fin:
  assumes "may_write r s" "\<not> sm_finished (stream_at s r)" "r < length (cn_store s)"
  obtains err s' where "WriteData lib d True r s = Some (err, s')" "cn_streams s' = cn_streams s"
    "stream_at s' r = (stream_at s r)\<lparr>sm_finished := True\<rparr>" "length (cn_store s') = length (cn_store s)"
proof -
  let ?s = "upd_stream r (\<lambda>st. st\<lparr>sm_finished := True\<rparr>) s"
  let ?w = "cn_write lib (Data \<lparr>df_StreamId = sm_streamId (stream_at ?s r), df_Flags = DataFlagFin, df_Data = d\<rparr>) ?s"
  have "WriteData lib d True r s = Some ?w" using assms by (simp add: WriteData_def Let_def)
  moreover have "cn_streams (snd ?w) = cn_streams s" "length (cn_store (snd ?w)) = length (cn_store s)"
    by (simp_all add: write_sel)
  moreover have "stream_at (snd ?w) r = (stream_at s r)\<lparr>sm_finished := True\<rparr>"
    using assms(3) stream_at_upd [of r "\<lambda>st. st\<lparr>sm_finished := True\<rparr>" s r] by (simp add: stream_at_def write_sel)
  ultimately show thesis using that [of "fst ?w" "snd ?w"] by simp
qed

lemma data_fin_True:
  assumes "r < length (cn_store s)"
  shows "stream_at (data_fin r True s) r = (stream_at s r)\<lparr>sm_closeClosed := True\<rparr>"
    "cn_streams (data_fin r True s) = (if sm_finished (stream_at s r)
       then (cn_streams s)(sm_streamId (stream_at s r) := None) else cn_streams s)"
    "length (cn_store (data_fin r True s)) = length (cn_store s)"
  using assms by (simp_all add: data_fin_def remoteStreamFinish_def Let_def closeRemoteChannels_eq removeStream_def
      stream_at_upd) (auto simp: stream_at_def upd_stream_def)

text \<open>
  A worker that handles one frame from start to end, with nothing in between; if it has to wait,
  \<open>taken\<close> says how that ends.
\<close>

definition whole_frame ::
  "('c, 'd) golib \<Rightarrow> frame \<Rightarrow> bool \<Rightarrow> ('c, 'd) connection \<Rightarrow> ('c, 'd) connection option" where
  "whole_frame lib fr taken s =
     (case handleFrame lib fr s of
        Panicked \<Rightarrow> None
      | Returned err s' \<Rightarrow> Some s'
      | Suspended w s' \<Rightarrow> (case resume w taken s' of Returned err s'' \<Rightarrow> Some s'' | _ \<Rightarrow> None))"

lemma whole_data:
  assumes "cn_streams s (df_StreamId fr) = Some r" "sm_replied (stream_at s r)"
  shows "whole_frame lib (Data fr) taken s = Some (data_fin r (df_Flags fr AND DataFlagFin \<noteq> 0) s)"
  using assms by (simp add: whole_frame_def handleDataFrame_def getStream_def Let_def resume.simps)

lemma data_fin_map:
  assumes "r < length (cn_store s)"
  shows "cn_streams (data_fin r fin s) = (if fin \<and> sm_finished (stream_at s r)
       then (cn_streams s)(sm_streamId (stream_at s r) := None) else cn_streams s)"
  using data_fin_True(2) [OF assms] by (cases fin) (simp_all add: data_fin_def)

lemma data_fin_stream:
  assumes "r < length (cn_store s)"
  shows "stream_at (data_fin r fin s) r = (if fin then (stream_at s r)\<lparr>sm_closeClosed := True\<rparr> else stream_at s r)"
  using data_fin_True(1) [OF assms] by (cases fin) (simp_all add: data_fin_def)

text \<open>
  C24: An open stream that was replied to, on which a whole \<open>Close\<close> and a data frame from the
  other side, handled as a whole, follow one another in either order: after the second of them the
  stream has left the map if the frame carries \<open>FIN\<close> and is still there if it does not; after the
  first it is there, and no other entry of the map changes.  That holds whether the frame has data
  or not, and whether its data is taken or dropped.
\<close>

theorem finished_stream_leaves_map:
  assumes "cn_streams s (df_StreamId fr) = Some r" "wf_map s" "sm_replied (stream_at s r)"
    "\<not> sm_finished (stream_at s r)" "\<not> sm_closeClosed (stream_at s r)"
  shows "(\<exists>err s1 s2. s_Close lib r s = Some (err, s1) \<and> whole_frame lib (Data fr) taken s1 = Some s2 \<and>
       cn_streams s1 = cn_streams s \<and>
       cn_streams s2 = (if df_Flags fr AND DataFlagFin \<noteq> 0 then (cn_streams s)(df_StreamId fr := None) else cn_streams s)) \<and>
     (\<exists>err s1 s2. whole_frame lib (Data fr) taken s = Some s1 \<and> s_Close lib r s1 = Some (err, s2) \<and>
       cn_streams s1 = cn_streams s \<and>
       cn_streams s2 = (if df_Flags fr AND DataFlagFin \<noteq> 0 then (cn_streams s)(df_StreamId fr := None) else cn_streams s))"
proof
  let ?fin = "df_Flags fr AND DataFlagFin \<noteq> 0" and ?sid = "df_StreamId fr"
  have r: "r < length (cn_store s)" "sm_streamId (stream_at s r) = ?sid" using assms(1,2) by (auto simp: wf_map_def)
  have m: "may_write r s" using assms(3) by (simp add: may_write_def)
  obtain err s1 where w: "WriteData lib [] True r s = Some (err, s1)" "cn_streams s1 = cn_streams s"
    "stream_at s1 r = (stream_at s r)\<lparr>sm_finished := True\<rparr>" "length (cn_store s1) = length (cn_store s)"
    using WriteData_fin [OF m assms(4) r(1)] by blast
  have c: "s_Close lib r s = Some (err, s1)" using w(1) assms(5) by (simp add: s_Close_def close_check_def)
  have "whole_frame lib (Data fr) taken s1 = Some (data_fin r ?fin s1)"
    using w(2,3) assms(1,3) by (intro whole_data) simp_all
  moreover have "cn_streams (data_fin r ?fin s1) = (if ?fin then (cn_streams s)(?sid := None) else cn_streams s)"
    using data_fin_map [of r s1 ?fin] w(2-4) r by simp
  ultimately show "\<exists>err s1 s2. s_Close lib r s = Some (err, s1) \<and> whole_frame lib (Data fr) taken s1 = Some s2 \<and>
       cn_streams s1 = cn_streams s \<and> cn_streams s2 = (if ?fin then (cn_streams s)(?sid := None) else cn_streams s)"
    using c w(2) by blast
  let ?s = "data_fin r ?fin s"
  let ?u = "close_check r ?s"
  have f: "whole_frame lib (Data fr) taken s = Some ?s" using assms(1,3) by (rule whole_data)
  have s: "cn_streams ?s = cn_streams s" "length (cn_store ?s) = length (cn_store s)"
    using data_fin_map [OF r(1), of ?fin] assms(4) data_fin_True(3) [OF r(1)] by (simp_all add: data_fin_def)
  have u: "cn_streams ?u = (if ?fin then (cn_streams s)(?sid := None) else cn_streams s)"
    "stream_at ?u r = stream_at ?s r" "length (cn_store ?u) = length (cn_store s)"
    using data_fin_stream [OF r(1), of ?fin] s r(2) assms(5)
    by (cases ?fin; simp add: close_check_def removeStream_def; simp add: stream_at_def)+
  have "may_write r ?u" "\<not> sm_finished (stream_at ?u r)" "r < length (cn_store ?u)"
    using m assms(4) r(1) u(2,3) data_fin_stream [OF r(1), of ?fin] by (simp_all add: may_write_def)
  from WriteData_fin [OF this, of lib "[]"] obtain err s2 where
    "WriteData lib [] True r ?u = Some (err, s2)" "cn_streams s2 = cn_streams ?u" by blast
  then show "\<exists>err s1 s2. whole_frame lib (Data fr) taken s = Some s1 \<and> s_Close lib r s1 = Some (err, s2) \<and>
       cn_streams s1 = cn_streams s \<and> cn_streams s2 = (if ?fin then (cn_streams s)(?sid := None) else cn_streams s)"
    using f s(1) u(1) by (simp add: s_Close_def)
qed

theorem finished_stream_leaves_map_witness:
  "\<exists>s err s1 s2. cn_streams s = [1 \<mapsto> 0] \<and> s_Close id_lib 0 s = Some (err, s1) \<and> cn_streams s1 = [1 \<mapsto> 0] \<and>
     whole_frame id_lib (Data \<lparr>df_StreamId = 1, df_Flags = 1, df_Data = [5]\<rparr>) True s1 = Some s2 \<and> cn_streams s2 = Map.empty"
proof -
  let ?s = "ex_open [] None [] True None 0" and ?fr = "\<lparr>df_StreamId = 1, df_Flags = 1, df_Data = [5]\<rparr>"
  have "cn_streams ?s (df_StreamId ?fr) = Some 0" "wf_map ?s" "sm_replied (stream_at ?s 0)" "\<not> sm_finished (stream_at ?s 0)"
    "\<not> sm_closeClosed (stream_at ?s 0)"
    by (simp_all add: ex_open_def wf_map_def stream_at_def)
  from finished_stream_leaves_map [OF this, of id_lib True] obtain err s1 s2 where
    1: "s_Close id_lib 0 ?s = Some (err, s1)" "whole_frame id_lib (Data ?fr) True s1 = Some s2" "cn_streams s1 = cn_streams ?s"
    "cn_streams s2 = (if df_Flags ?fr AND DataFlagFin \<noteq> 0 then (cn_streams ?s)(df_StreamId ?fr := None) else cn_streams ?s)" by blast
  have "cn_streams ?s = [1 \<mapsto> 0]" "df_Flags ?fr AND DataFlagFin \<noteq> 0" by (simp_all add: ex_open_def DataFlagFin_def)
  with 1 show ?thesis by (intro exI [of _ ?s] exI [of _ err] exI [of _ s1] exI [of _ s2]) simp
qed

section \<open>The race\<close>

definition fin_bytes :: "byte list" where
  "fin_bytes = [0, 0, 0, 1, 1, 0, 0, 0]"

definition ex_fin :: data_frame where
  "ex_fin = \<lparr>df_StreamId = 1, df_Flags = 1, df_Data = []\<rparr>"

lemma ex_read_fin:
  "ReadFrame id_lib (ex_out_framer out (Some ()) (fin_bytes @ bs)) = (Inr (Data ex_fin), ex_out_framer out (Some ()) bs)"
  by (simp add: fin_bytes_def ex_fin_def ex_read)

definition ex_half :: "byte list \<Rightarrow> byte list \<Rightarrow> bool \<Rightarrow> (unit, unit) connection" where
  "ex_half out bs fin = (let c = ex_open out (Some ()) bs True None 0 in
     c\<lparr>cn_store := [(stream_at c 0)\<lparr>sm_closeClosed := True, sm_finished := fin\<rparr>]\<rparr>)"

lemmas ex_steps = ex_step ex_half_def

lemma ex_check:
  "serve_exec id_lib (C_Call (A_Close_Check 0)) (ex_at (ex_open out d bs r u p) ph q w) =
     Some ([], ex_at (ex_open out d bs r u p) ph q w)"
  by (simp add: ex_steps close_check_def)

lemma ex_reads_fin:
  "serve_exec id_lib C_Read (ex_at (ex_open out (Some ()) (fin_bytes @ bs) True None 0) Reading q w) =
     Some ([], ex_at (ex_open out (Some ()) bs True None 0) (Pushing 1 (Data ex_fin) 0) q w)"
  by (simp add: ex_step exec_read_def iaf_ReadFrame_def newIdleAwareFramer_def monitor_reset_def ex_read_fin
      stream_route_def getStreamPriority_def ex_fin_def partition_1)

lemma ex_pop_fin:
  "serve_exec id_lib (C_Pop 1) (ex_at (ex_open out (Some ()) bs True None 0) ph (ex_q [(Data ex_fin, 0, i)] n) At_Pop) =
     Some ([Popped 1 (Data ex_fin)], ex_at (ex_half out bs False) ph (ex_q [] n) At_Pop)"
  by (simp add: ex_steps exec_pop_def ex_pop handleDataFrame_def ex_fin_def data_fin_def remoteStreamFinish_def
      closeRemoteChannels_eq DataFlagFin_def)

lemma ex_write_fin:
  "\<exists>out'. serve_exec id_lib (C_Call (A_WriteData [] True 0)) (ex_at (ex_half out bs False) ph q w) =
     Some ([], ex_at (ex_half out' bs True) ph q w)"
proof -
  obtain out' fr where w: "WriteFrame id_lib (ex_out_framer out (Some ()) bs)
      (Data \<lparr>df_StreamId = 1, df_Flags = DataFlagFin, df_Data = []\<rparr>) = (None, ex_out_framer out' (Some ()) bs, fr)"
    by (simp add: ex_out_framer_def ex_framer_def ex_reader_def Let_def f_send_def write_all_ok writeDataFrame_def
        del: write_all.simps)
  then show ?thesis
    by (intro exI [of _ out'])
      (simp add: ex_steps WriteData_def may_write_def cn_write_def iaf_WriteFrame_def newIdleAwareFramer_def
        monitor_reset_def del: WriteFrame.simps)
qed

text \<open>
  C28: \<open>Close\<close> may leave a finished stream in the map: it looks whether the other side has
  finished, and then writes, without a lock that spans the two.  There is a run in which the last
  data frame of the other side is handled in between: at its end both ends of the stream have
  finished, nothing is left in the queues and no worker is busy, and the stream is in the map,
  where a shutdown without timeout waits for it for ever.
\<close>

theorem Close_race_leaves_stream:
  "\<exists>tr y. serves id_lib tr y \<and> sm_finished (stream_at (sy_conn y) 0) \<and> sm_closeClosed (stream_at (sy_conn y) 0) \<and>
     cn_streams (sy_conn y) 1 = Some 0 \<and> sy_phase y = Reading \<and>
     sy_workers y = replicate FRAME_WORKERS At_Pop \<and> map pq_queue (sy_queues y) = replicate FRAME_WORKERS []"
proof -
  let ?bs = "reply_bytes @ fin_bytes @ [0]"
  obtain out where o: "serve_exec id_lib (C_Call (A_CreateStream [] None False))
      (ex_at (ex_client_conn ?bs) Reading (ex_q [] 0) At_Pop) =
     Some ([], ex_at (ex_open out None ?bs False None 0) Reading (ex_q [] 0) At_Pop)"
    using ex_call_create by blast
  obtain out' where w: "serve_exec id_lib (C_Call (A_WriteData [] True 0)) (ex_at (ex_half out [0] False) Reading (ex_q [] 2) At_Pop) =
     Some ([], ex_at (ex_half out' [0] True) Reading (ex_q [] 2) At_Pop)" using ex_write_fin by blast
  let ?y = "ex_at (ex_half out' [0] True) Reading (ex_q [] 2) At_Pop"
  have "\<exists>tr. exec_run id_lib [C_Call (A_CreateStream [] None False), C_Read, C_Push, C_Pop 1,
      C_Call (A_Close_Check 0), C_Read, C_Push, C_Pop 1, C_Call (A_WriteData [] True 0)]
      (ex_at (ex_client_conn ?bs) Reading (ex_q [] 0) At_Pop) = Some (tr, ?y)"
    by (simp add: o ex_reads_reply ex_push ex_pop_reply ex_check ex_reads_fin ex_pop_fin w del: serve_exec.simps One_nat_def)
  then obtain tr where "serves id_lib tr ?y" using exec_run_serves [OF ex_at_start] by blast
  moreover have "sm_finished (stream_at (sy_conn ?y) 0)" "sm_closeClosed (stream_at (sy_conn ?y) 0)"
    "cn_streams (sy_conn ?y) 1 = Some 0" "sy_phase ?y = Reading" "sy_workers ?y = replicate FRAME_WORKERS At_Pop"
    by (simp_all add: ex_at_def ex_half_def ex_open_def stream_at_def five Let_def)
  moreover have "map pq_queue (sy_queues ?y) = replicate FRAME_WORKERS []"
    by (simp add: ex_at_def ex_q_def NewPriorityFrameQueue_def heap_Init_def five)
  ultimately show ?thesis by blast
qed

section \<open>Ids\<close>

text \<open>
  C30: Who may take over a stream that is in the map, one of this side's too: the check of a
  \<open>SYN_STREAM\<close>'s id does not look at its parity.  If the connection has not gone away and the id is
  in range and not below the ids received so far, the frame is accepted, and a new stream takes the
  place of the old one in the map, so that the frames of that id go to the new one from then on;
  otherwise the frame is rejected and the map is as it was.
\<close>

theorem own_stream_id_is_taken_over:
  assumes "cn_streams s (ss_StreamId fr) = Some r" "wf_map s" "route (SynStream fr) rr s = (x, rr', s')"
  shows "if \<not> cn_goneAway s \<and> cn_receivedStreamId s \<le> ss_StreamId fr \<and> ss_StreamId fr \<le> 0x7fffffff
     then x = To_Queue (partition_of (ss_StreamId fr)) (ss_Priority fr) \<and>
       (\<exists>r'. r' \<noteq> r \<and> cn_streams s' (ss_StreamId fr) = Some r' \<and> sm_hasReplyCond (stream_at s' r'))
     else x = Rejected \<and> cn_streams s' = cn_streams s"
proof (cases "\<not> cn_goneAway s \<and> cn_receivedStreamId s \<le> ss_StreamId fr \<and> ss_StreamId fr \<le> 0x7fffffff")
  case True
  let ?s = "s\<lparr>cn_receivedStreamId := ss_StreamId fr + 2\<rparr>"
  have c: "checkStreamFrame fr s = (True, ?s)"
    using True by (simp add: checkStreamFrame_def validateStreamId_def not_less not_le)
  have "r \<noteq> length (cn_store s)" using assms(1,2) by (auto simp: wf_map_def)
  moreover have "cn_streams (addStreamFrame fr ?s) (ss_StreamId fr) = Some (length (cn_store s)) \<and>
     sm_hasReplyCond (stream_at (addStreamFrame fr ?s) (length (cn_store s)))"
    by (simp add: addStreamFrame_def Let_def alloc_stream_def addStream_def stream_at_def closeRemoteChannels_eq
        upd_stream_def)
  ultimately show ?thesis using assms(3) c True by auto
next
  case False
  then have "\<exists>s1. checkStreamFrame fr s = (False, s1) \<and> cn_streams s1 = cn_streams s"
    by (auto simp: checkStreamFrame_def validateStreamId_def spawn_def not_less not_le)
  with False assms(3) show ?thesis by auto
qed

theorem own_stream_id_is_taken_over_witness:
  "\<exists>s' rr'. route (SynStream ((ex_syn 3)\<lparr>ss_StreamId := 3\<rparr>)) 0
       ((ex_open [] None [] True None 0)\<lparr>cn_streams := [3 \<mapsto> 0], cn_store := [(stream_at (ex_open [] None [] True None 0) 0)\<lparr>sm_streamId := 3\<rparr>]\<rparr>) =
       (To_Queue 3 0, rr', s') \<and> cn_streams s' 3 \<noteq> Some 0"
proof -
  let ?s = "(ex_open [] None [] True None 0)\<lparr>cn_streams := [3 \<mapsto> 0],
     cn_store := [(stream_at (ex_open [] None [] True None 0) 0)\<lparr>sm_streamId := 3\<rparr>]\<rparr>"
  let ?fr = "(ex_syn 3)\<lparr>ss_StreamId := 3\<rparr>"
  obtain x rr' s' where r: "route (SynStream ?fr) 0 ?s = (x, rr', s')" by (metis prod_cases3)
  have 1: "cn_streams ?s (ss_StreamId ?fr) = Some 0" "wf_map ?s"
    and 2: "\<not> cn_goneAway ?s \<and> cn_receivedStreamId ?s \<le> ss_StreamId ?fr \<and> ss_StreamId ?fr \<le> 0x7fffffff"
    by (simp_all add: ex_syn_def ex_open_def ex_client_conn_def wf_map_def stream_at_def)
  have "partition_of 3 = 3" by (simp add: partition_of_def FRAME_WORKERS_def)
  with own_stream_id_is_taken_over [OF 1 r, unfolded if_P [OF 2]] r show ?thesis by (auto simp: ex_syn_def)
qed

end
