(* ===== verification/Handlers.thy ===== *)
theory Handlers
  imports Serve_Order
begin

text \<open>
  The stream handlers of \<^verbatim>\<open>handlers.go\<close>.  The mirror handler's two goroutines are the loops
  \<open>io_Copy\<close>, of the standard library over the stream's own \<open>Read\<close> and \<open>Write\<close>, and
  \<open>mirror_headers\<close>.
\<close>

section \<open>The handlers\<close>

definition NoOpStreamHandler :: "('c, 'd) golib \<Rightarrow> nat \<Rightarrow> ('c, 'd) connection \<Rightarrow> ('c, 'd) connection" where
  "NoOpStreamHandler lib r s = snd (SendReply lib [] False r s)"

text \<open>Whether the two goroutines were started.\<close>

definition MirrorStreamHandler ::
  "('c, 'd) golib \<Rightarrow> nat \<Rightarrow> ('c, 'd) connection \<Rightarrow> bool \<times> ('c, 'd) connection" where
  "MirrorStreamHandler lib r s =
     (case SendReply lib [] False r s of (Some err, s) \<Rightarrow> (False, s) | (None, s) \<Rightarrow> (True, s))"

text \<open>
  \<open>io.Copy(stream, stream)\<close>: a buffer of 32 kB; the loop ends at \<open>io.EOF\<close> or with the first
  write error.  \<open>ds\<close> is the data the worker has for the stream, after which the stream is
  closed; the fuel is the number of \<open>Read\<close> calls.  \<open>None\<close>: more fuel is needed, or a write
  waits for the reply.
\<close>

definition copy_buffer :: nat where "copy_buffer = 32 * 1024"

fun io_Copy ::
  "nat \<Rightarrow> ('c, 'd) golib \<Rightarrow> byte list list \<Rightarrow> nat \<Rightarrow> ('c, 'd) connection \<Rightarrow> (go_error option \<times> ('c, 'd) connection) option" where
  "io_Copy 0 lib ds r s = None"
| "io_Copy (Suc n) lib ds r s =
     (let fresh = (sm_unread (stream_at s r) = None);
          chosen = (if fresh then (case ds of [] \<Rightarrow> None | d # _ \<Rightarrow> Some d) else None);
          rest = (if fresh then tl ds else ds)
      in case s_Read copy_buffer chosen r s of
        (Inl err, s) \<Rightarrow> Some (if err = EOF then None else Some err, s)
      | (Inr bs, s) \<Rightarrow>
          if bs = [] then io_Copy n lib rest r s
          else (case Write lib bs r s of
             None \<Rightarrow> None
           | Some ((nw, Some err), s) \<Rightarrow> Some (Some err, s)
           | Some ((nw, None), s) \<Rightarrow> io_Copy n lib rest r s))"

definition mirror_data ::
  "nat \<Rightarrow> ('c, 'd) golib \<Rightarrow> byte list list \<Rightarrow> nat \<Rightarrow> ('c, 'd) connection \<Rightarrow> ('c, 'd) connection option" where
  "mirror_data n lib ds r s =
     (case io_Copy n lib ds r s of
        None \<Rightarrow> None
      | Some (err, s) \<Rightarrow> map_option snd (s_Close lib r s))"

fun mirror_headers :: "('c, 'd) golib \<Rightarrow> http_header list \<Rightarrow> nat \<Rightarrow> ('c, 'd) connection \<Rightarrow> ('c, 'd) connection" where
  "mirror_headers lib [] r s = s"
| "mirror_headers lib (h # hs) r s =
     (case SendHeader lib h False r s of
        (Some err, s) \<Rightarrow> s
      | (None, s) \<Rightarrow> mirror_headers lib hs r s)"

section \<open>Data frames on the wire\<close>

definition data_frame_bytes :: "stream_id \<Rightarrow> u8 \<Rightarrow> byte list \<Rightarrow> byte list" where
  "data_frame_bytes sid flags bs = be32 sid @ be32 (pack24 flags (word_of_nat (length bs))) @ bs"

definition wire :: "('c, 'd) connection \<Rightarrow> byte list" where
  "wire s = wr_out (f_w (if_f (cn_framer s)))"

text \<open>A stream that may write, on a network connection that works.\<close>

definition ready :: "nat \<Rightarrow> ('c, 'd) connection \<Rightarrow> bool" where
  "ready r s = (if_open (cn_framer s) \<and> wr_fault (f_w (if_f (cn_framer s))) = None \<and> r < length (cn_store s) \<and>
     may_write r s \<and> sm_streamId (stream_at s r) \<noteq> 0 \<and> sm_streamId (stream_at s r) AND 0x80000000 = 0)"

lemma ready_write:
  assumes "ready r s" "length bs \<le> MaxDataLength"
  obtains s' where
    "cn_write lib (Data \<lparr>df_StreamId = sm_streamId (stream_at s r), df_Flags = flags, df_Data = bs\<rparr>) s = (None, s')"
    "wire s' = wire s @ data_frame_bytes (sm_streamId (stream_at s r)) flags bs" "cn_store s' = cn_store s"
    "cn_streams s' = cn_streams s" "ready r s'"
proof -
  let ?i = "cn_framer s" and ?sid = "sm_streamId (stream_at s r)"
  let ?fr = "\<lparr>df_StreamId = ?sid, df_Flags = flags, df_Data = bs\<rparr>"
  have r: "if_open ?i" "wr_fault (f_w (if_f ?i)) = None" "?sid \<noteq> 0" "?sid AND 0x80000000 = 0"
    using assms(1) by (auto simp: ready_def)
  obtain f where f: "writeDataFrame (if_f ?i) ?fr = (None, f, ?fr)" "wr_fault (f_w f) = None"
    "wr_out (f_w f) = wr_out (f_w (if_f ?i)) @ data_frame_bytes ?sid flags bs"
    using r assms(2) by (simp add: writeDataFrame_def Let_def f_send_ok data_frame_bytes_def not_less)
  let ?s' = "s\<lparr>cn_framer := monitor_reset (?i\<lparr>if_f := f\<rparr>)\<rparr>"
  have "cn_write lib (Data ?fr) s = (None, ?s')"
    using r(1) f(1) by (simp add: cn_write_def iaf_WriteFrame_def)
  moreover have "ready r ?s'" using assms(1) f(2) by (simp add: ready_def stream_at_def may_write_def)
  ultimately show thesis using that f(3) by (simp add: wire_def)
qed

section \<open>Mirroring\<close>

text \<open>The pieces a frame's data is read in.\<close>

function pieces :: "byte list \<Rightarrow> byte list list" where
  "pieces d = (if d = [] then [] else take copy_buffer d # pieces (drop copy_buffer d))"
  by pat_completeness auto
termination by (relation "measure length") (auto simp: copy_buffer_def)

declare pieces.simps [simp del]

lemma pieces_Nil [simp]: "pieces [] = []"
  by (subst pieces.simps) simp

lemma concat_pieces: "concat (pieces d) = d"
  by (induction d rule: pieces.induct) (subst pieces.simps, auto)

lemma pieces_size: "p \<in> set (pieces d) \<Longrightarrow> p \<noteq> [] \<and> length p \<le> copy_buffer"
  by (induction d rule: pieces.induct) (subst (asm) (2) pieces.simps, auto simp: copy_buffer_def split: if_splits)

text \<open>The data still to be mirrored: what is unread, then what the worker has.\<close>

definition left_over :: "byte list option \<Rightarrow> byte list list \<Rightarrow> byte list list" where
  "left_over u ds = (case u of None \<Rightarrow> concat (map pieces ds) | Some v \<Rightarrow> pieces v @ concat (map pieces ds))"

definition rest_of :: "byte list \<Rightarrow> byte list option" where
  "rest_of d = (if copy_buffer < length d then Some (drop copy_buffer d) else None)"

lemma left_over_rest: "d \<noteq> [] \<Longrightarrow> take copy_buffer d # left_over (rest_of d) ds = pieces d @ concat (map pieces ds)"
  by (subst pieces.simps [of d]) (auto simp: left_over_def rest_of_def)

lemma copy_ready:
  assumes "ready r s" "sm_unread (stream_at s r) = u"
  obtains s1 where "s_Read copy_buffer (Some d) r s =
      (Inr (take copy_buffer (case u of None \<Rightarrow> d | Some v \<Rightarrow> v)), s1)" "ready r s1" "wire s1 = wire s"
    "cn_streams s1 = cn_streams s" "stream_at s1 r = (stream_at s r)\<lparr>sm_unread := rest_of (case u of None \<Rightarrow> d | Some v \<Rightarrow> v)\<rparr>"
proof -
  let ?d = "case u of None \<Rightarrow> d | Some v \<Rightarrow> v"
  let ?s1 = "upd_stream r (\<lambda>st. st\<lparr>sm_unread := rest_of ?d\<rparr>) s"
  have r: "r < length (cn_store s)" using assms(1) by (simp add: ready_def)
  then have at: "stream_at ?s1 r = (stream_at s r)\<lparr>sm_unread := rest_of ?d\<rparr>" by (simp add: stream_at_upd)
  then have "ready r ?s1" using assms(1) by (simp add: ready_def may_write_def) (simp add: upd_stream_def)
  moreover have "s_Read copy_buffer (Some d) r s = (Inr (take copy_buffer ?d), ?s1)"
    using assms(2) by (cases u) (auto simp: s_Read_def copy_unread_def Let_def rest_of_def min_def
        intro!: arg_cong [where f = "\<lambda>g. upd_stream r g s"])
  moreover have "wire ?s1 = wire s" by (simp add: wire_def upd_stream_def)
  ultimately show thesis using that at by simp
qed

lemma Write_ready:
  assumes "ready r s" "length bs \<le> MaxDataLength"
  obtains s' where "Write lib bs r s = Some ((length bs, None), s')" "ready r s'"
    "wire s' = wire s @ data_frame_bytes (sm_streamId (stream_at s r)) 0 bs" "cn_store s' = cn_store s" "cn_streams s' = cn_streams s"
proof -
  obtain s' where w: "cn_write lib (Data \<lparr>df_StreamId = sm_streamId (stream_at s r), df_Flags = 0, df_Data = bs\<rparr>) s = (None, s')"
    "wire s' = wire s @ data_frame_bytes (sm_streamId (stream_at s r)) 0 bs" "cn_store s' = cn_store s"
    "cn_streams s' = cn_streams s" "ready r s'" by (rule ready_write [OF assms])
  then show thesis using that assms(1) by (simp add: Write_def WriteData_def ready_def)
qed

text \<open>One turn of the loop, with data to read.\<close>

lemma io_Copy_turn:
  assumes "ready r s" "sm_unread (stream_at s r) = u" "d \<noteq> []"
    "(u = None \<and> ds = d # ds') \<or> (u = Some d \<and> ds' = ds)"
  obtains s' where "io_Copy (Suc n) lib ds r s = io_Copy n lib ds' r s'" "ready r s'"
    "stream_at s' r = (stream_at s r)\<lparr>sm_unread := rest_of d\<rparr>" "cn_streams s' = cn_streams s"
    "wire s' = wire s @ data_frame_bytes (sm_streamId (stream_at s r)) 0 (take copy_buffer d)"
proof -
  have d: "(case u of None \<Rightarrow> d | Some v \<Rightarrow> v) = d" using assms(4) by auto
  obtain s1 where s1: "s_Read copy_buffer (Some d) r s = (Inr (take copy_buffer d), s1)" "ready r s1" "wire s1 = wire s"
    "cn_streams s1 = cn_streams s" "stream_at s1 r = (stream_at s r)\<lparr>sm_unread := rest_of d\<rparr>"
    using copy_ready [OF assms(1,2), of d thesis] d by auto
  have len: "length (take copy_buffer d) \<le> MaxDataLength" by (simp add: copy_buffer_def MaxDataLength_def)
  obtain s2 where s2: "Write lib (take copy_buffer d) r s1 = Some ((length (take copy_buffer d), None), s2)" "ready r s2"
    "wire s2 = wire s1 @ data_frame_bytes (sm_streamId (stream_at s1 r)) 0 (take copy_buffer d)" "cn_store s2 = cn_store s1"
    "cn_streams s2 = cn_streams s1"
    by (rule Write_ready [OF s1(2) len])
  have read: "s_Read copy_buffer (if u = None then (case ds of [] \<Rightarrow> None | d # _ \<Rightarrow> Some d) else None) r s =
      s_Read copy_buffer (Some d) r s"
    using assms(2,4) by (auto simp: s_Read_def)
  have ne: "take copy_buffer d \<noteq> []" using assms(3) by (simp add: copy_buffer_def)
  have "io_Copy (Suc n) lib ds r s = io_Copy n lib (if u = None then tl ds else ds) r s2"
    unfolding io_Copy.simps Let_def assms(2) read s1(1) using ne s2(1) by simp
  moreover have "(if u = None then tl ds else ds) = ds'" using assms(4) by auto
  moreover have "stream_at s2 r = stream_at s1 r" using s2(4) by (simp add: stream_at_def)
  ultimately show thesis using that [of s2] s1 s2 by simp
qed

lemma io_Copy_echo:
  assumes "ready r s" "sm_unread (stream_at s r) = u" "u \<noteq> Some []" "\<forall>d\<in>set ds. d \<noteq> []" "length (left_over u ds) < n"
  shows "\<exists>s'. io_Copy n lib ds r s = Some (None, s') \<and> ready r s' \<and> cn_streams s' = cn_streams s \<and>
     stream_at s' r = (stream_at s r)\<lparr>sm_unread := None\<rparr> \<and>
     wire s' = wire s @ concat (map (data_frame_bytes (sm_streamId (stream_at s r)) 0) (left_over u ds))"
  using assms
proof (induction n arbitrary: s u ds)
  case (Suc n)
  show ?case
  proof (cases "u = None \<and> ds = []")
    case True
    with Suc.prems(1,2) show ?thesis
      by (cases "stream_at s r") (auto simp: s_Read_def left_over_def)
  next
    case False
    then obtain d ds' where d: "(u = None \<and> ds = d # ds') \<or> (u = Some d \<and> ds' = ds)" by (cases u; cases ds) auto
    with Suc.prems(3,4) have "d \<noteq> []" by auto
    from io_Copy_turn [OF Suc.prems(1,2) this d, of n lib] obtain s1 where
      s1: "io_Copy (Suc n) lib ds r s = io_Copy n lib ds' r s1" "ready r s1"
      "stream_at s1 r = (stream_at s r)\<lparr>sm_unread := rest_of d\<rparr>" "cn_streams s1 = cn_streams s"
      "wire s1 = wire s @ data_frame_bytes (sm_streamId (stream_at s r)) 0 (take copy_buffer d)" by blast
    have l: "left_over u ds = take copy_buffer d # left_over (rest_of d) ds'"
      using d left_over_rest [OF \<open>d \<noteq> []\<close>, of ds'] by (auto simp: left_over_def)
    have "sm_unread (stream_at s1 r) = rest_of d" "rest_of d \<noteq> Some []" "\<forall>d\<in>set ds'. d \<noteq> []"
      "length (left_over (rest_of d) ds') < n"
      using s1(3) d Suc.prems(4,5) l by (auto simp: rest_of_def)
    from Suc.IH [OF s1(2) this] show ?thesis unfolding s1(1) using s1(3-5) l by auto
  qed
qed simp

text \<open>
  C27: The mirror handler sends back what it gets: on a stream it has replied to and a network
  connection that works, whatever data frames come in before the other side finishes, its
  copying loop ends, and what it has put on the wire is one data frame for each piece of at most
  32 kB of each frame, in order, and then the empty frame with the FIN flag; together the pieces
  are the data that came in.
\<close>

theorem mirror_echoes:
  assumes "ready r s" "sm_unread (stream_at s r) = None" "\<not> sm_finished (stream_at s r)"
    "\<forall>d\<in>set ds. d \<noteq> []" "length (concat (map pieces ds)) < n" "sid = sm_streamId (stream_at s r)"
  shows "\<exists>s'. mirror_data n lib ds r s = Some s' \<and>
     wire s' = wire s @ concat (map (data_frame_bytes sid 0) (concat (map pieces ds))) @ data_frame_bytes sid DataFlagFin [] \<and>
     concat (concat (map pieces ds)) = concat ds \<and>
     (\<forall>p\<in>set (concat (map pieces ds)). length p \<le> 32 * 1024) \<and> sm_finished (stream_at s' r)"
proof -
  obtain s1 where s1: "io_Copy n lib ds r s = Some (None, s1)" "ready r s1"
    "stream_at s1 r = (stream_at s r)\<lparr>sm_unread := None\<rparr>"
    "wire s1 = wire s @ concat (map (data_frame_bytes sid 0) (concat (map pieces ds)))"
    using io_Copy_echo [OF assms(1,2), of ds n lib] assms(4,5,6) by (auto simp: left_over_def)
  let ?c = "close_check r s1" and ?u = "upd_stream r (\<lambda>st. st\<lparr>sm_finished := True\<rparr>) (close_check r s1)"
  have r: "r < length (cn_store s1)" using s1(2) by (simp add: ready_def)
  have c: "cn_store ?c = cn_store s1" "cn_framer ?c = cn_framer s1" by (simp_all add: close_check_def removeStream_def)
  then have at: "stream_at ?u r = (stream_at s1 r)\<lparr>sm_finished := True\<rparr>" using r stream_at_upd [of r _ ?c r]
    by (simp add: stream_at_def)
  have rc: "ready r ?u" "wire ?u = wire s1"
    using s1(2) c at by (simp_all add: ready_def may_write_def wire_def) (simp_all add: upd_stream_def c stream_at_def)
  obtain s2 where s2: "cn_write lib (Data \<lparr>df_StreamId = sm_streamId (stream_at ?u r), df_Flags = DataFlagFin, df_Data = []\<rparr>) ?u = (None, s2)"
    "wire s2 = wire ?u @ data_frame_bytes (sm_streamId (stream_at ?u r)) DataFlagFin []" "cn_store s2 = cn_store ?u"
    by (rule ready_write [OF rc(1), of "[]" lib DataFlagFin]) simp_all
  have "may_write r ?c" "\<not> sm_finished (stream_at ?c r)"
    using s1(2,3) c assms(3) by (simp_all add: ready_def may_write_def stream_at_def)
  then have "s_Close lib r s1 = Some (None, s2)" using s2(1) by (simp add: s_Close_def WriteData_def Let_def)
  moreover have "stream_at s2 r = stream_at ?u r" using s2(3) by (simp add: stream_at_def)
  moreover have "concat (concat (map pieces ds)) = concat ds" by (induction ds) (simp_all add: concat_pieces)
  moreover have "\<forall>p\<in>set (concat (map pieces ds)). length p \<le> 32 * 1024"
    using pieces_size by (fastforce simp: copy_buffer_def)
  ultimately show ?thesis using s1 s2(2) rc(2) at assms(6) by (simp add: mirror_data_def)
qed

theorem mirror_echoes_witness:
  "\<exists>s s'. mirror_data 3 id_lib [[5, 7], [6]] 0 s = Some s' \<and>
     wire s' = wire s @ data_frame_bytes 1 0 [5, 7] @ data_frame_bytes 1 0 [6] @ data_frame_bytes 1 DataFlagFin []"
proof -
  let ?s = "ex_open [] None [] True None 0"
  have "ready 0 ?s" "sm_unread (stream_at ?s 0) = None" "\<not> sm_finished (stream_at ?s 0)" "1 = sm_streamId (stream_at ?s 0)"
    by (simp_all add: ex_open_def ready_def stream_at_def may_write_def newIdleAwareFramer_def ex_out_framer_def)
  moreover have "pieces [5, 7] = [[5, 7]]" "pieces [6] = [[6]]" by (simp_all add: pieces.simps [of "_ # _"] copy_buffer_def)
  ultimately obtain s' where "mirror_data 3 id_lib [[5, 7], [6]] 0 ?s = Some s'"
    "wire s' = wire ?s @ data_frame_bytes 1 0 [5, 7] @ data_frame_bytes 1 0 [6] @ data_frame_bytes 1 DataFlagFin []"
    using mirror_echoes [of 0 ?s "[[5, 7], [6]]" 3 1 id_lib] by auto
  then show ?thesis by blast
qed

end
