(* ===== verification/Spec2Isabelle.thy ===== *)
theory Spec2Isabelle
  imports Prelude Dictionary Spdy_Types Go_Lib Spdy_Write Spdy_Read Spdy_Codec Spdy_Roundtrip
    Spdy_Session Spdy_Faults Spdy_Safety Go_Heap Priority Priority_Runs Priority_Threads Connection Stream_Ops
    Worker Conn_Ids Transition Serve Evolution Serve_Inv Serve_Exec Serve_Example Serve_Data Stream_Data
    Serve_Order Serve_Life Stream_Life Handlers
begin

text \<open>
  A verification development for spdystream, a multiplexing of streams over one network
  connection after SPDY/3.

  THE PROGRAM.  \<^verbatim>\<open>spdy/\<close> is the codec: \<open>Framer.WriteFrame\<close> puts one frame on the
  connection, \<open>Framer.ReadFrame\<close> takes one; the header blocks of three frame kinds go through
  one zlib stream per direction that lives as long as the framer.  \<^verbatim>\<open>connection.go\<close> is the
  endpoint: \<open>Serve\<close> reads frames in a loop and pushes each to one of five bounded priority
  queues (\<^verbatim>\<open>priority.go\<close>); behind each queue a worker pops frames and handles them; the
  application calls the methods of \<open>Connection\<close> and \<open>Stream\<close> (\<^verbatim>\<open>stream.go\<close>) meanwhile; an
  idle monitor may tear the connection down; \<open>Close\<close> or a \<open>GOAWAY\<close> frame start
  \<open>shutdown\<close>.  \<^verbatim>\<open>handlers.go\<close> has two ready-made stream handlers.

  THEORIES AND SOURCES.
  \<^item> \<open>Prelude\<close>: words, bytes, big-endian numbers, the result type and its bind, shared lemmas.
  \<^item> \<open>Dictionary\<close>: \<^verbatim>\<open>spdy/dictionary.go\<close>, byte for byte.
  \<^item> \<open>Spdy_Types\<close>: \<^verbatim>\<open>spdy/types.go\<close>, \<^verbatim>\<open>spdy/options.go\<close>: frames, error codes, constants,
    the record \<open>framer\<close> (fields as in the source), the reader and writer of the network
    connection, the record \<open>golib\<close> of what is not under src, the constructors.
  \<^item> \<open>Go_Lib\<close>, \<open>Go_Header\<close>: what the codec uses of \<^verbatim>\<open>io\<close>, \<^verbatim>\<open>encoding/binary\<close>, \<^verbatim>\<open>strings\<close> and
    \<^verbatim>\<open>net/http\<close>'s \<open>Header\<close>.
  \<^item> \<open>Spdy_Write\<close>, \<open>Spdy_Read\<close>: \<^verbatim>\<open>spdy/write.go\<close>, \<^verbatim>\<open>spdy/read.go\<close>, method by method.
  \<^item> \<open>Spdy_Codec\<close>, \<open>Zlib_Contract\<close>, \<open>Spdy_Roundtrip\<close>, \<open>Spdy_Session\<close>: what is written is
    read back, frame by frame and over a session; \<open>Spdy_Faults\<close>: a failing connection;
    \<open>Spdy_Safety\<close>: what the decoder does with any bytes whatever.
  \<^item> \<open>Go_Heap\<close>, \<open>Priority\<close>: \<^verbatim>\<open>container/heap\<close> and the queue of \<^verbatim>\<open>priority.go\<close>;
    \<open>Priority_Runs\<close>: refinement of a list, order, bounds, draining; \<open>Priority_Threads\<close>: its
    condition variable, with no lost wakeup.
  \<^item> \<open>Connection\<close>: \<^verbatim>\<open>connection.go\<close>: the idle-aware framer, the record \<open>connection\<close>, ids, the
    stream map, frames sent, going away, shutdown, pings.  \<open>Stream_Ops\<close>: \<^verbatim>\<open>stream.go\<close>.
    \<open>Worker\<close>: the frame handlers of \<open>frameHandler\<close>.
  \<^item> \<open>Conn_Ids\<close>: stream ids, accepted ids, \<open>GOAWAY\<close>, ping ids.
  \<^item> \<open>Transition\<close>: runs of transition systems and their invariants, as locales.  \<open>Serve\<close>:
    the step relation of the whole endpoint; \<open>Serve_Exec\<close>: the same as a function;
    \<open>Serve_Example\<close>: concrete runs computed with it.
  \<^item> \<open>Evolution\<close>: what any operation may change in a stream, proved once in a locale for all
    operations and used with two relations.  \<open>Serve_Inv\<close>: the map, start channels, panics
    of workers.
    \<open>Serve_Data\<close>, \<open>Stream_Data\<close>, \<open>Serve_Order\<close>: a stream's data from queue to reader.
    \<open>Serve_Life\<close>: channels closed twice, monitor, shutdown, the end of \<open>Serve\<close>.  \<open>Stream_Life\<close>: closing a stream.
  \<^item> \<open>Handlers\<close>: \<^verbatim>\<open>handlers.go\<close>.

  HOW STATE CORRESPONDS.  Structs are records with the source's fields.  A \<open>*Stream\<close> is an
  index into \<open>cn_store\<close>, so that streams keep their identity when the map forgets them.  A
  channel without a buffer is a rendezvous and holds no state; a channel that is only ever closed
  is a bool.  Machine integers are words of their width.  Errors are values; a call that waits is
  \<open>None\<close>, and is not a step until it can go on.  Every \<open>close\<close> of a channel looks whether it is closed already:
  then it is a panic, \<open>Panicked\<close> in a handler on its way to a start or ping channel, and the flag \<open>cn_panicked\<close>
  for all others; a system that panics has \<open>crashed\<close>.  The channel \<open>streamsClosed\<close> of \<open>shutdown\<close> is local to one
  goroutine that closes it and ends.

  STEPS.  What a goroutine does between two points where it may wait, or where it gives up a lock that
  matters, is one step; \<open>serve_step\<close> allows every interleaving of the read loop, the five
  workers, the monitor, \<open>shutdown\<close>, spawned goroutines and the application's calls.  Calls that
  look under one lock and act under another are split (\<open>Close\<close> of a stream, \<open>Ping\<close>).  Reads and
  writes of plain fields without a lock are atomic here, where the source has data races.  Time
  is left out: a running timer may fire at any moment, and what it has put in its channel stays
  there when it is stopped or reset, as with the timers of Go 1.13.  The token a read or a write sends to the monitor
  is taken at once.  Steps show events, and invariants relate the events of a run to its state.

  WHAT THE LEMMAS SHOW.  Codec: round trips for one frame and for a session, truncation on a
  failing connection, and for any input: frames well-formed and within the limits, reading that
  ends, frames too long skipped.  Queue: it refines a list, keeps order within a priority, stays in its
  bound, drains, and wakes whoever can go on.  Endpoint: ids, consistency of the stream map, the
  only panic there is, data neither lost, repeated nor reordered between the queue and the
  readers, the life of streams, \<open>shutdown\<close> once, what is closed when \<open>Serve\<close> ends or the idle
  timeout fires, and that the order in which Go visits the map does not matter.  Some theorems show behaviour the source's authors may not want: a second answer
  to a ping ends the process; overlapping pings share an id; \<open>SetPriority\<close> reorders data; a
  \<open>Close\<close> that races with the other side's leaves the stream in the map; \<open>Wait\<close> blocks for good
  when the connection ends first; the other side may take over an id of this side; most names sent
  twice in a header block are accepted; the length of a \<open>PING\<close> is not looked at; a \<open>RST_STREAM\<close>
  without a status is written in part.

  PARAMETERS.  \<open>compress/zlib\<close> and \<open>unicode.ToLower\<close> beyond ASCII are fields of \<open>golib\<close>.  The
  round trips assume of zlib what its documentation says: after a flush, what was written can be
  read, for a reader in step (\<open>zlib_spec\<close>), and, which the documentation does not say but the source
  relies on when it checks \<open>headerReader.N\<close>, that reading it all leaves nothing of the block
  (\<open>zlib_done_law\<close>); with compression off they assume nothing at all.  \<open>Spdy_Safety\<close> assumes only that
  \<open>io.ReadFull\<close> gives what it is asked for and that zlib reads the connection forward
  (\<open>zlib_reads\<close>).  The
  witnesses use an identity codec that meets the contract.  The network connection is the bytes
  it delivers and the error after them, and for writes how many bytes it takes before it fails.

  BOUNDS.  The queue theorems hold for fewer than $2^{64}$ pushes, the range of its insertion
  counter.  \<open>io_Copy\<close> has as fuel the number of its reads; one more than there are pieces of
  data is enough, and the theorem about it proves that.  Everything else terminates as it stands.

  NOT MODELLED.  Logging (\<^verbatim>\<open>utils.go\<close>); \<open>String\<close> and the address and deadline methods of a
  stream, which format or forward; named constants that are never read; the test hook
  \<open>dataFrameHandler\<close>, which is fixed to its default; measured durations (the result of \<open>Ping\<close>).
  Waiting callers are not threads: that a call that waits is woken (\<open>Broadcast\<close>, \<open>Signal\<close>) is
  shown for the frame queue only.
\<close>

end
